theory Spec2Isabelle
  imports Complex_Main
begin

section \<open>JavaScript values used by the transcription services\<close>

text \<open>
  The services are TypeScript. A \<^verbatim>\<open>number\<close> is modelled as a real (the provider's
  millisecond stamps are finite; NaN and the infinities are left out), a \<^verbatim>\<open>string\<close> as
  a \<^typ>\<open>string\<close> (the UTF-8 bytes of the JavaScript string), and a field that may be
  \<^verbatim>\<open>undefined\<close> or \<^verbatim>\<open>null\<close> as an option, where the code does not tell the two apart.
  The helpers below are the truthiness tests behind \<^verbatim>\<open>if (x)\<close>, \<^verbatim>\<open>x || d\<close> and
  \<^verbatim>\<open>x ? a : b\<close>: the empty string and the number 0 are falsy, as is a missing value.
\<close>

definition truthy_str :: "string option \<Rightarrow> bool" where
  "truthy_str x = (case x of None \<Rightarrow> False | Some s \<Rightarrow> s \<noteq> [])"

definition or_str :: "string option \<Rightarrow> string \<Rightarrow> string" where
  "or_str x d = (case x of None \<Rightarrow> d | Some s \<Rightarrow> if s = [] then d else s)"

definition or_real :: "real option \<Rightarrow> real \<Rightarrow> real" where
  "or_real x d = (case x of None \<Rightarrow> d | Some r \<Rightarrow> if r = 0 then d else r)"

text \<open>
  \<^verbatim>\<open>String.prototype.trim\<close> removes the white space and line terminators of ECMAScript
  from both ends. \<open>white_space\<close> lists the UTF-8 encodings of these 25 code points:
  U+0009 to U+000D, U+0020, U+00A0, U+1680, U+2000 to U+200A, U+2028, U+2029, U+202F,
  U+205F, U+3000 and U+FEFF. \<open>strip\<close> removes, from the front of a string, every leading
  occurrence of one of the byte sequences of a table.
\<close>

definition white_space :: "string list" where
  "white_space =
     [[CHR 0x09], [CHR 0x0A], [CHR 0x0B], [CHR 0x0C], [CHR 0x0D], [CHR 0x20],
      [CHR 0xC2, CHR 0xA0],
      [CHR 0xE1, CHR 0x9A, CHR 0x80],
      [CHR 0xE2, CHR 0x80, CHR 0x80], [CHR 0xE2, CHR 0x80, CHR 0x81],
      [CHR 0xE2, CHR 0x80, CHR 0x82], [CHR 0xE2, CHR 0x80, CHR 0x83],
      [CHR 0xE2, CHR 0x80, CHR 0x84], [CHR 0xE2, CHR 0x80, CHR 0x85],
      [CHR 0xE2, CHR 0x80, CHR 0x86], [CHR 0xE2, CHR 0x80, CHR 0x87],
      [CHR 0xE2, CHR 0x80, CHR 0x88], [CHR 0xE2, CHR 0x80, CHR 0x89],
      [CHR 0xE2, CHR 0x80, CHR 0x8A],
      [CHR 0xE2, CHR 0x80, CHR 0xA8], [CHR 0xE2, CHR 0x80, CHR 0xA9],
      [CHR 0xE2, CHR 0x80, CHR 0xAF],
      [CHR 0xE2, CHR 0x81, CHR 0x9F],
      [CHR 0xE3, CHR 0x80, CHR 0x80],
      [CHR 0xEF, CHR 0xBB, CHR 0xBF]]"

function strip :: "string list \<Rightarrow> string \<Rightarrow> string" where
  "strip table s =
     (case find (\<lambda>w. w \<noteq> [] \<and> take (length w) s = w) table of
        None \<Rightarrow> s
      | Some w \<Rightarrow> strip table (drop (length w) s))"
  by pat_completeness auto
termination
proof (relation "measure (\<lambda>(table, s). length s)")
  fix table :: "string list" and s w :: string
  assume "find (\<lambda>w. w \<noteq> [] \<and> take (length w) s = w) table = Some w"
  then have w: "w \<noteq> []" "take (length w) s = w"
    by (auto simp: find_Some_iff)
  from w(2) have "s \<noteq> []"
    using w(1) by auto
  then show "((table, drop (length w) s), (table, s)) \<in> measure (\<lambda>(table, s). length s)"
    using w(1) by simp
qed simp

declare strip.simps [simp del]

definition js_trim :: "string \<Rightarrow> string" where
  "js_trim s = rev (strip (map rev white_space) (rev (strip white_space s)))"

section \<open>Provider response and segments\<close>

text \<open>
  Field names carry a prefix where the source's name (\<^verbatim>\<open>text\<close>, \<^verbatim>\<open>end\<close>) is reserved:
  \<open>u_\<close> for an utterance, \<open>w_\<close> for a word, \<open>tr_\<close> for the provider's transcript
  object, \<open>seg_\<close> for a segment of \<^verbatim>\<open>TranscriptionResult.segments\<close>.
\<close>

record utterance =
  u_start :: real
  u_end :: real
  u_text :: string
  u_speaker :: "string option"

record aword =
  w_start :: real
  w_end :: real
  w_text :: string
  w_speaker :: "string option"

text \<open>
  The provider's \<^verbatim>\<open>error\<close> field is printed by a template literal (line 126), which
  prints a missing field as \<open>undefined\<close> and a \<^verbatim>\<open>null\<close> one as \<open>null\<close>.
\<close>

datatype error_field = Undefined | Null | Message string

definition template_text :: "error_field \<Rightarrow> string" where
  "template_text e = (case e of Undefined \<Rightarrow> ''undefined'' | Null \<Rightarrow> ''null'' | Message m \<Rightarrow> m)"

record provider_response =
  tr_status :: string
  tr_error :: error_field
  tr_text :: "string option"
  tr_language_code :: "string option"
  tr_audio_duration :: "real option"
  tr_utterances :: "utterance list option"
  tr_words :: "aword list option"

record segment =
  seg_start :: real
  seg_end :: real
  seg_text :: string
  seg_speaker :: "string option"

section \<open>Segment normalizer: \<^verbatim>\<open>parseAssemblyAISegmentsWithSpeakers\<close>\<close>

text \<open>
  \<^verbatim>\<open>x ? `Speaker ${x}` : undefined\<close>, the tag built from a provider speaker id
  (lines 175-177, 196, 200 and 225 of transcriptionService.ts).
\<close>

definition speaker_label :: "string option \<Rightarrow> string option" where
  "speaker_label x = (if truthy_str x then Some (''Speaker '' @ or_str x []) else None)"

text \<open>The callback of \<^verbatim>\<open>transcript.utterances.map\<close> (lines 169-179).\<close>

definition utterance_segment :: "utterance \<Rightarrow> segment" where
  "utterance_segment u =
     \<lparr> seg_start = u_start u / 1000,
       seg_end = u_end u / 1000,
       seg_text = or_str (Some (u_text u)) [],
       seg_speaker = speaker_label (u_speaker u) \<rparr>"

text \<open>\<^verbatim>\<open>word.text.match(/[.!?]$/)\<close>: the text ends in a full stop, \<open>!\<close> or \<open>?\<close>.\<close>

definition ends_sentence :: "string \<Rightarrow> bool" where
  "ends_sentence t = (t \<noteq> [] \<and> (last t = CHR ''.'' \<or> last t = CHR ''!'' \<or> last t = CHR ''?''))"

text \<open>The variables of the word loop (lines 186-189).\<close>

record loop_state =
  segments :: "segment list"
  currentSegment :: string
  segmentStart :: real
  currentSpeaker :: "string option"

definition init_state :: loop_state where
  "init_state = \<lparr> segments = [], currentSegment = [], segmentStart = 0, currentSpeaker = None \<rparr>"

text \<open>
  One pass of the loop body at index \<open>i\<close> (lines 192-228). Inside the loop
  \<open>i < length ws\<close>, so \<^verbatim>\<open>i === words.length - 1\<close> is \<open>Suc i = length ws\<close> and
  \<^verbatim>\<open>i < words.length - 1\<close> is \<open>Suc i < length ws\<close>.
\<close>

definition loop_body :: "aword list \<Rightarrow> nat \<Rightarrow> loop_state \<Rightarrow> loop_state" where
  "loop_body ws i st0 =
     (let word = ws ! i;
          st1 = (if i = 0
                 then st0\<lparr> segmentStart := w_start word / 1000,
                           currentSpeaker := speaker_label (w_speaker word) \<rparr>
                 else st0);
          wordSpeaker = speaker_label (w_speaker word);
          speakerChanged = (wordSpeaker \<noteq> currentSpeaker st1);
          st2 = st1\<lparr> currentSegment := currentSegment st1 @ w_text word @ '' '' \<rparr>
      in if speakerChanged \<or> ends_sentence (w_text word) \<or> (i > 0 \<and> i mod 50 = 0)
            \<or> Suc i = length ws
         then
           (let seg = \<lparr> seg_start = segmentStart st2,
                        seg_end = w_end word / 1000,
                        seg_text = js_trim (currentSegment st2),
                        seg_speaker = (if truthy_str (currentSpeaker st2)
                                       then currentSpeaker st2 else None) \<rparr>;
                st3 = st2\<lparr> segments := segments st2 @ [seg] \<rparr>
            in if speakerChanged
               then st3\<lparr> currentSpeaker := wordSpeaker,
                         segmentStart := w_start word / 1000,
                         currentSegment := w_text word @ '' '' \<rparr>
               else
                 (let st4 = st3\<lparr> currentSegment := [] \<rparr>
                  in if Suc i < length ws
                     then st4\<lparr> segmentStart := or_real (Some (w_start (ws ! Suc i) / 1000)) 0,
                               currentSpeaker := speaker_label (w_speaker (ws ! Suc i)) \<rparr>
                     else st4))
         else st2)"

text \<open>\<^verbatim>\<open>for (let i = 0; i < transcript.words.length; i++)\<close>, entered at index \<open>i\<close>.\<close>

function words_loop :: "aword list \<Rightarrow> nat \<Rightarrow> loop_state \<Rightarrow> loop_state" where
  "words_loop ws i st =
     (if i < length ws then words_loop ws (Suc i) (loop_body ws i st) else st)"
  by pat_completeness auto
termination
  by (relation "measure (\<lambda>(ws, i, st). length ws - i)") auto

declare words_loop.simps [simp del]

text \<open>
  The three shapes (lines 166, 184, 235): an \<^verbatim>\<open>utterances\<close> array wins, then a
  \<^verbatim>\<open>words\<close> array, then the single whole-transcript segment. The guards test that the
  field is an array, not that it has elements.
\<close>

definition parseAssemblyAISegmentsWithSpeakers :: "provider_response \<Rightarrow> segment list" where
  "parseAssemblyAISegmentsWithSpeakers t =
     (case tr_utterances t of
        Some us \<Rightarrow> map utterance_segment us
      | None \<Rightarrow>
          (case tr_words t of
             Some ws \<Rightarrow> segments (words_loop ws 0 init_state)
           | None \<Rightarrow>
               [\<lparr> seg_start = 0,
                  seg_end = or_real (tr_audio_duration t) 0,
                  seg_text = or_str (tr_text t) [],
                  seg_speaker = None \<rparr>]))"

section \<open>Errors, the database and the world outside\<close>

text \<open>
  A \<^verbatim>\<open>throw\<close> is the left summand of the result. \<open>Error m\<close> is an instance of
  JavaScript's \<^verbatim>\<open>Error\<close> with message \<open>m\<close> (Prisma's and Node's errors are such
  instances); \<open>Thrown_other\<close> is any thrown value that is not.
\<close>

datatype thrown = Error string | Thrown_other

text \<open>
  The two Prisma tables the services touch. \<^verbatim>\<open>Transcript.recordingId\<close> is unique and a
  foreign key, so the transcripts are keyed by recording id. Generated columns (ids,
  timestamps) and the columns no service reads (file size, path, user) are left out.
\<close>

record recording =
  rec_filename :: string
  rec_originalFilename :: string
  rec_duration :: "real option"
  rec_status :: string

record transcript =
  tx_content :: string
  tx_rawTranscript :: string
  tx_speakerCount :: int
  tx_confidenceScore :: "real option"
  tx_language :: "string option"
  tx_speakerNames :: "string option"
  tx_speakerIdentified :: bool

text \<open>
  \<open>identifyCalls\<close> is a ghost counter: the number of calls of
  \<^verbatim>\<open>identifySpeakers\<close> so far. Nothing reads it.
\<close>

record state =
  recordings :: "string \<Rightarrow> recording option"
  transcripts :: "string \<Rightarrow> transcript option"
  identifyCalls :: nat

text \<open>
  A speaker mapping is an object with string values, as the interface
  \<^verbatim>\<open>SpeakerMapping\<close> declares: the list of its own properties.
\<close>

type_synonym SpeakerMapping = "(string \<times> string) list"

text \<open>
  \<^verbatim>\<open>JSON.stringify\<close> and \<^verbatim>\<open>JSON.parse\<close> belong to the runtime, not to the repository:
  they are parameters, at the two types the services use them at. A parse that throws
  \<^verbatim>\<open>SyntaxError\<close> is \<open>None\<close>.
\<close>

record json =
  stringify_segments :: "segment list \<Rightarrow> string"
  parse_segments :: "string \<Rightarrow> segment list option"
  stringify_mapping :: "SpeakerMapping \<Rightarrow> string"
  parse_mapping :: "string \<Rightarrow> SpeakerMapping option"

text \<open>
  What one run meets outside the process: \<^verbatim>\<open>fs.statSync\<close> (\<open>None\<close>: it throws), the
  provider's \<^verbatim>\<open>transcripts.transcribe\<close>, \<^verbatim>\<open>ffprobe\<close> (\<open>None\<close>: the callback's
  \<^verbatim>\<open>err\<close>; otherwise \<^verbatim>\<open>metadata?.format?.duration\<close>), the chat completion
  (\<^verbatim>\<open>choices[0]?.message?.content\<close>; the prompt is a function of the segments and the
  raw text, which stand for it), and whether the constructor could build the speaker
  identification service.
\<close>

record world =
  statSync :: "string \<Rightarrow> nat option"
  transcribe :: "string \<Rightarrow> thrown + provider_response"
  ffprobe :: "string \<Rightarrow> real option option"
  chat :: "segment list \<Rightarrow> string \<Rightarrow> thrown + string option"
  speakerIdentificationService :: bool

section \<open>Speaker identification service\<close>

text \<open>\<^verbatim>\<open>storeSpeakerMapping\<close> (lines 149-165): \<^verbatim>\<open>update\<close> rejects when no row matches.\<close>

definition storeSpeakerMapping ::
  "json \<Rightarrow> string \<Rightarrow> SpeakerMapping \<Rightarrow> state \<Rightarrow> (thrown + unit) \<times> state" where
  "storeSpeakerMapping J recordingId speakerMapping s =
     (case transcripts s recordingId of
        None \<Rightarrow> (Inl (Error ''P2025''), s)
      | Some t \<Rightarrow>
          (Inr (),
           s\<lparr> transcripts := (transcripts s)(recordingId \<mapsto>
                 t\<lparr> tx_speakerNames := Some (stringify_mapping J speakerMapping),
                    tx_speakerIdentified := True \<rparr>) \<rparr>))"

text \<open>
  \<^verbatim>\<open>getSpeakerMapping\<close> (lines 170-186): \<^verbatim>\<open>null\<close> when there is no row, when
  \<^verbatim>\<open>speakerNames\<close> is falsy, and (the \<^verbatim>\<open>catch\<close>) when the text does not parse.
\<close>

definition getSpeakerMapping :: "json \<Rightarrow> string \<Rightarrow> state \<Rightarrow> SpeakerMapping option" where
  "getSpeakerMapping J recordingId s =
     (case transcripts s recordingId of
        None \<Rightarrow> None
      | Some t \<Rightarrow>
          if \<not> truthy_str (tx_speakerNames t) then None
          else parse_mapping J (or_str (tx_speakerNames t) []))"

text \<open>
  \<^verbatim>\<open>speakerMapping[k]\<close>. The mapping is the object that \<^verbatim>\<open>JSON.parse\<close> returned, so
  its prototype is \<^verbatim>\<open>Object.prototype\<close>: a key that is not an own property is looked
  up there. \<open>Text v\<close> is the string \<open>v\<close>; \<open>Member k\<close> is the value of
  \<^verbatim>\<open>Object.prototype[k]\<close>, a function or (for \<^verbatim>\<open>__proto__\<close>) an object, never a string
  and always truthy. An own property, \<^verbatim>\<open>__proto__\<close> included, hides the inherited one.
\<close>

datatype js_value = Text string | Member string

definition object_prototype :: "string list" where
  "object_prototype =
     [''constructor'', ''__defineGetter__'', ''__defineSetter__'', ''hasOwnProperty'',
      ''__lookupGetter__'', ''__lookupSetter__'', ''isPrototypeOf'', ''propertyIsEnumerable'',
      ''toString'', ''valueOf'', ''__proto__'', ''toLocaleString'']"

definition js_get :: "SpeakerMapping \<Rightarrow> string \<Rightarrow> js_value option" where
  "js_get obj k =
     (case map_of obj k of
        Some v \<Rightarrow> Some (Text v)
      | None \<Rightarrow> if k \<in> set object_prototype then Some (Member k) else None)"

definition truthy_val :: "js_value option \<Rightarrow> bool" where
  "truthy_val x = (case x of None \<Rightarrow> False | Some (Text v) \<Rightarrow> v \<noteq> [] | Some (Member k) \<Rightarrow> True)"

text \<open>\<^verbatim>\<open>a || b\<close>, for a looked-up value \<open>a\<close> and an optional string \<open>b\<close>.\<close>

definition or_val :: "js_value option \<Rightarrow> string option \<Rightarrow> js_value option" where
  "or_val a b = (if truthy_val a then a else map_option Text b)"

text \<open>
  A segment as \<^verbatim>\<open>applySpeakerNamesToSegments\<close> returns it: its \<^verbatim>\<open>speaker\<close> is whatever
  the lookup gave. \<open>same_segment\<close> is a segment returned as it is.
\<close>

record overlaid_segment =
  ov_start :: real
  ov_end :: real
  ov_text :: string
  ov_speaker :: "js_value option"

definition same_segment :: "segment \<Rightarrow> overlaid_segment" where
  "same_segment seg =
     \<lparr> ov_start = seg_start seg, ov_end = seg_end seg, ov_text = seg_text seg,
       ov_speaker = map_option Text (seg_speaker seg) \<rparr>"

text \<open>\<^verbatim>\<open>applySpeakerNamesToSegments\<close> (lines 191-205).\<close>

definition applySpeakerNamesToSegments ::
  "json \<Rightarrow> string \<Rightarrow> segment list \<Rightarrow> state \<Rightarrow> overlaid_segment list" where
  "applySpeakerNamesToSegments J recordingId segs s =
     (case getSpeakerMapping J recordingId s of
        None \<Rightarrow> map same_segment segs
      | Some speakerMapping \<Rightarrow>
          map (\<lambda>seg. (same_segment seg)\<lparr> ov_speaker :=
                 or_val (js_get speakerMapping (or_str (seg_speaker seg) [])) (seg_speaker seg) \<rparr>)
              segs)"

text \<open>
  \<^verbatim>\<open>identifySpeakers\<close> (lines 35-85): the chat call, the empty-answer test, the parse
  and the write; every failure is rethrown by the \<^verbatim>\<open>catch\<close>.
\<close>

definition identifySpeakers ::
  "world \<Rightarrow> json \<Rightarrow> string \<Rightarrow> segment list \<Rightarrow> string \<Rightarrow> state
     \<Rightarrow> (thrown + SpeakerMapping) \<times> state" where
  "identifySpeakers W J recordingId segs rawTranscript s0 =
     (let s = s0\<lparr> identifyCalls := Suc (identifyCalls s0) \<rparr> in
      case chat W segs rawTranscript of
        Inl e \<Rightarrow> (Inl e, s)
      | Inr result \<Rightarrow>
          if \<not> truthy_str result then (Inl (Error ''No response from GPT-4.1''), s)
          else
            (case parse_mapping J (or_str result []) of
               None \<Rightarrow> (Inl (Error ''SyntaxError''), s)
             | Some speakerMapping \<Rightarrow>
                 (case storeSpeakerMapping J recordingId speakerMapping s of
                    (Inl e, s') \<Rightarrow> (Inl e, s')
                  | (Inr u, s') \<Rightarrow> (Inr speakerMapping, s'))))"

section \<open>Transcription service\<close>

record TranscriptionResult =
  res_text :: string
  res_segments :: "segment list"
  res_language :: string
  res_duration :: real
  res_speakerCount :: "int option"

text \<open>\<^verbatim>\<open>getAudioDuration\<close> (lines 245-259): a probe error resolves to 0.\<close>

definition getAudioDuration :: "world \<Rightarrow> string \<Rightarrow> real" where
  "getAudioDuration W filePath =
     (case ffprobe W filePath of None \<Rightarrow> 0 | Some duration \<Rightarrow> or_real duration 0)"

text \<open>\<^verbatim>\<open>new Set(segments.map(s => s.speaker).filter(Boolean)).size\<close> (lines 136-137).\<close>

definition speakerSetSize :: "segment list \<Rightarrow> int" where
  "speakerSetSize segs = int (length (remdups (filter truthy_str (map seg_speaker segs))))"

text \<open>
  \<^verbatim>\<open>transcribeDirectly\<close> (lines 109-151). The \<^verbatim>\<open>catch\<close> wraps whatever was thrown
  in a new \<^verbatim>\<open>Error\<close>.
\<close>

definition wrap_failure :: "thrown \<Rightarrow> thrown" where
  "wrap_failure e =
     Error (''Transcription failed: '' @ (case e of Error m \<Rightarrow> m | Thrown_other \<Rightarrow> ''Unknown error''))"

definition transcribeDirectly :: "world \<Rightarrow> string \<Rightarrow> thrown + TranscriptionResult" where
  "transcribeDirectly W filePath =
     (case transcribe W filePath of
        Inl e \<Rightarrow> Inl (wrap_failure e)
      | Inr t \<Rightarrow>
          if tr_status t = ''error''
          then Inl (wrap_failure (Error (''AssemblyAI transcription failed: ''
                                          @ template_text (tr_error t))))
          else
            (let duration = getAudioDuration W filePath;
                 segs = parseAssemblyAISegmentsWithSpeakers t;
                 speakerCount = speakerSetSize segs
             in Inr \<lparr> res_text = or_str (tr_text t) [],
                      res_segments = segs,
                      res_language = or_str (tr_language_code t) ''unknown'',
                      res_duration = or_real (tr_audio_duration t) duration,
                      res_speakerCount = Some speakerCount \<rparr>))"

text \<open>
  \<^verbatim>\<open>storeTranscription\<close> (lines 264-292). \<^verbatim>\<open>create\<close> rejects on a second transcript
  of the same recording (the unique column) and on a recording that does not exist (the
  foreign key). \<^verbatim>\<open>result.speakerCount || 1\<close> replaces a missing or zero count by 1.
\<close>

definition storeTranscription ::
  "json \<Rightarrow> string \<Rightarrow> TranscriptionResult \<Rightarrow> state \<Rightarrow> (thrown + unit) \<times> state" where
  "storeTranscription J recordingId result s =
     (if transcripts s recordingId \<noteq> None then (Inl (Error ''P2002''), s)
      else
        (case recordings s recordingId of
           None \<Rightarrow> (Inl (Error ''P2003''), s)
         | Some r \<Rightarrow>
             (let s1 = s\<lparr> transcripts := (transcripts s)(recordingId \<mapsto>
                          \<lparr> tx_content = stringify_segments J (res_segments result),
                            tx_rawTranscript = res_text result,
                            tx_speakerCount =
                              (case res_speakerCount result of
                                 None \<Rightarrow> 1 | Some n \<Rightarrow> if n = 0 then 1 else n),
                            tx_confidenceScore = None,
                            tx_language = Some (res_language result),
                            tx_speakerNames = None,
                            tx_speakerIdentified = False \<rparr>) \<rparr>
              in if res_duration result > 0
                 then (Inr (),
                       s1\<lparr> recordings := (recordings s1)(recordingId \<mapsto>
                              r\<lparr> rec_duration := Some (res_duration result) \<rparr>) \<rparr>)
                 else (Inr (), s1))))"

text \<open>\<^verbatim>\<open>updateRecordingStatus\<close> (lines 297-308).\<close>

definition updateRecordingStatus ::
  "string \<Rightarrow> string \<Rightarrow> state \<Rightarrow> (thrown + unit) \<times> state" where
  "updateRecordingStatus recordingId status s =
     (case recordings s recordingId of
        None \<Rightarrow> (Inl (Error ''P2025''), s)
      | Some r \<Rightarrow>
          (Inr (), s\<lparr> recordings := (recordings s)(recordingId \<mapsto> r\<lparr> rec_status := status \<rparr>) \<rparr>))"

text \<open>
  The \<^verbatim>\<open>catch\<close> of \<^verbatim>\<open>transcribeAudio\<close> (lines 99-103): mark the recording FAILED and
  rethrow; if the update itself throws, that error is the one that leaves.
\<close>

definition failed_run ::
  "string \<Rightarrow> thrown \<Rightarrow> state \<Rightarrow> (thrown + TranscriptionResult) \<times> state" where
  "failed_run recordingId e s =
     (case updateRecordingStatus recordingId ''FAILED'' s of
        (Inl e', s') \<Rightarrow> (Inl e', s')
      | (Inr u, s') \<Rightarrow> (Inl e, s'))"

text \<open>
  \<^verbatim>\<open>transcribeAudio\<close> (lines 54-104). The inner \<^verbatim>\<open>try\<close> around
  \<^verbatim>\<open>identifySpeakers\<close> drops its result and keeps the state it left.
\<close>

definition transcribeAudio ::
  "world \<Rightarrow> json \<Rightarrow> string \<Rightarrow> string \<Rightarrow> state \<Rightarrow> (thrown + TranscriptionResult) \<times> state" where
  "transcribeAudio W J recordingId filePath s =
     (case updateRecordingStatus recordingId ''TRANSCRIBING'' s of
        (Inl e, s1) \<Rightarrow> failed_run recordingId e s1
      | (Inr u, s1) \<Rightarrow>
          (case statSync W filePath of
             None \<Rightarrow> failed_run recordingId (Error ''ENOENT'') s1
           | Some fileSize \<Rightarrow>
               (case transcribeDirectly W filePath of
                  Inl e \<Rightarrow> failed_run recordingId e s1
                | Inr transcriptionResult \<Rightarrow>
                    (case storeTranscription J recordingId transcriptionResult s1 of
                       (Inl e, s2) \<Rightarrow> failed_run recordingId e s2
                     | (Inr u', s2) \<Rightarrow>
                         (let s3 =
                            (if speakerIdentificationService W
                                \<and> (case res_speakerCount transcriptionResult of
                                      None \<Rightarrow> False | Some n \<Rightarrow> n \<noteq> 0 \<and> n > 1)
                             then snd (identifySpeakers W J recordingId
                                         (res_segments transcriptionResult)
                                         (res_text transcriptionResult) s2)
                             else s2)
                          in case updateRecordingStatus recordingId ''COMPLETED'' s3 of
                               (Inl e, s4) \<Rightarrow> failed_run recordingId e s4
                             | (Inr u'', s4) \<Rightarrow> (Inr transcriptionResult, s4))))))"

text \<open>
  \<^verbatim>\<open>getTranscription\<close> (lines 313-382). A returned segment is the stored one, with a
  \<^verbatim>\<open>speakerName\<close> field added when the overlay runs: what the lookup
  \<^verbatim>\<open>speakerNames[segment.speaker]\<close> gave, or the tag. \<open>Inr None\<close> is the \<^verbatim>\<open>null\<close> of
  line 323.
\<close>

record named_segment = segment +
  speakerName :: "js_value option"

record transcription_view =
  v_recordingId :: string
  v_text :: string
  v_segments :: "named_segment list"
  v_language :: "string option"
  v_speakerCount :: int
  v_speakerNames :: "SpeakerMapping option"
  v_speakerIdentified :: bool
  v_confidenceScore :: "real option"
  v_recording :: recording

definition with_name :: "segment \<Rightarrow> js_value option \<Rightarrow> named_segment" where
  "with_name seg n = segment.extend seg \<lparr> speakerName = n \<rparr>"

definition getTranscription ::
  "json \<Rightarrow> string \<Rightarrow> state \<Rightarrow> thrown + transcription_view option" where
  "getTranscription J recordingId s =
     (case transcripts s recordingId of
        None \<Rightarrow> Inr None
      | Some t \<Rightarrow>
          (case parse_segments J (tx_content t) of
             None \<Rightarrow> Inl (Error ''SyntaxError'')
           | Some segs \<Rightarrow>
               (let speakerNames =
                      (if truthy_str (tx_speakerNames t)
                       then parse_mapping J (or_str (tx_speakerNames t) [])
                       else None);
                    segs' =
                      (case speakerNames of
                         None \<Rightarrow> map (\<lambda>seg. with_name seg None) segs
                       | Some m \<Rightarrow>
                           if length segs > 0
                           then map (\<lambda>seg. with_name seg
                                       (if truthy_str (seg_speaker seg)
                                           \<and> truthy_val (js_get m (or_str (seg_speaker seg) []))
                                        then js_get m (or_str (seg_speaker seg) [])
                                        else map_option Text (seg_speaker seg))) segs
                           else map (\<lambda>seg. with_name seg None) segs)
                in case recordings s recordingId of
                     None \<Rightarrow> Inl (Error ''TypeError'')
                   | Some r \<Rightarrow>
                       Inr (Some \<lparr> v_recordingId = recordingId,
                                   v_text = tx_rawTranscript t,
                                   v_segments = segs',
                                   v_language = tx_language t,
                                   v_speakerCount = tx_speakerCount t,
                                   v_speakerNames = speakerNames,
                                   v_speakerIdentified = tx_speakerIdentified t,
                                   v_confidenceScore = tx_confidenceScore t,
                                   v_recording = r \<rparr>))))"

section \<open>Reference definitions\<close>

text \<open>
  These are not code of the repository. The first ones say what a run of the word loop
  over words of one speaker and without sentence ends is compared with. \<open>chunk_segment\<close> is the
  segment built from a run of consecutive words \<open>cs\<close>; \<open>word_chunks\<close> cuts a list
  after its first 51 elements and then after every 50; \<open>cut_at\<close> cuts where the loop
  does when only the index test \<^verbatim>\<open>i > 0 && i % 50 === 0\<close> and the last word close a
  segment.
\<close>

definition words_text :: "aword list \<Rightarrow> string" where
  "words_text cs = js_trim (concat (map (\<lambda>w. w_text w @ '' '') cs))"

definition chunk_segment :: "string option \<Rightarrow> aword list \<Rightarrow> segment" where
  "chunk_segment sp cs =
     \<lparr> seg_start = w_start (hd cs) / 1000, seg_end = w_end (last cs) / 1000,
       seg_text = words_text cs, seg_speaker = sp \<rparr>"

function chunks_of :: "nat \<Rightarrow> 'a list \<Rightarrow> 'a list list" where
  "chunks_of k xs = (if xs = [] \<or> k = 0 then [] else take k xs # chunks_of k (drop k xs))"
  by pat_completeness auto
termination
  by (relation "measure (\<lambda>(k, xs). length xs)") auto

declare chunks_of.simps [simp del]

definition word_chunks :: "'a list \<Rightarrow> 'a list list" where
  "word_chunks ws = (if ws = [] then [] else take 51 ws # chunks_of 50 (drop 51 ws))"

fun cut_at :: "nat \<Rightarrow> 'a list \<Rightarrow> 'a list \<Rightarrow> 'a list list" where
  "cut_at i acc [] = []"
| "cut_at i acc (w # rest) =
     (if (i > 0 \<and> i mod 50 = 0) \<or> rest = [] then (acc @ [w]) # cut_at (Suc i) [] rest
      else cut_at (Suc i) (acc @ [w]) rest)"

text \<open>
  The invariant of the word loop on time-ordered words: the segments pushed so far are
  ordered, none starts after \<open>segmentStart\<close>, and no word from index \<open>i\<close> on starts
  before it.
\<close>

definition loop_inv :: "aword list \<Rightarrow> nat \<Rightarrow> loop_state \<Rightarrow> bool" where
  "loop_inv ws i st =
     (sorted (map seg_start (segments st)) \<and>
      (\<forall>s \<in> set (segments st). seg_start s \<le> segmentStart st) \<and>
      (\<forall>j. i \<le> j \<and> j < length ws \<longrightarrow> segmentStart st \<le> w_start (ws ! j) / 1000))"

text \<open>
  A speaker that is no tag, or a tag that does not name a member of
  \<^verbatim>\<open>Object.prototype\<close>; and the word loop's state when its speakers are such.
\<close>

definition plain_tag :: "string option \<Rightarrow> bool" where
  "plain_tag x = (case x of None \<Rightarrow> True | Some tag \<Rightarrow> tag \<notin> set object_prototype)"

definition plain_tags :: "loop_state \<Rightarrow> bool" where
  "plain_tags st =
     (plain_tag (currentSpeaker st) \<and> (\<forall>seg \<in> set (segments st). plain_tag (seg_speaker seg)))"

text \<open>
  The test of line 78, \<^verbatim>\<open>speakerCount && speakerCount > 1\<close> with the service present; a
  count above 1 is not 0.
\<close>

definition wants_resolver :: "world \<Rightarrow> TranscriptionResult \<Rightarrow> bool" where
  "wants_resolver W res =
     (speakerIdentificationService W \<and>
      (case res_speakerCount res of None \<Rightarrow> False | Some n \<Rightarrow> n > 1))"

section \<open>Example inputs\<close>

text \<open>
  The inputs of the closed theorems below. \<open>example_json\<close> is a finite table of the
  runtime's JSON functions: the entries the examples need.
\<close>

abbreviation two_utterances :: "utterance list" where
  "two_utterances \<equiv>
     [\<lparr> u_start = 0, u_end = 2000, u_text = ''hi'', u_speaker = Some ''A'' \<rparr>,
      \<lparr> u_start = 2000, u_end = 4000, u_text = ''hello'', u_speaker = Some ''B'' \<rparr>]"

abbreviation utterances_response :: "utterance list \<Rightarrow> provider_response" where
  "utterances_response us \<equiv>
     \<lparr> tr_status = ''completed'', tr_error = Undefined, tr_text = Some ''hi hello'',
       tr_language_code = Some ''en'', tr_audio_duration = Some 4,
       tr_utterances = Some us, tr_words = None \<rparr>"

abbreviation words_response :: "aword list \<Rightarrow> provider_response" where
  "words_response ws \<equiv>
     \<lparr> tr_status = ''completed'', tr_error = Undefined, tr_text = Some ''hi hello'',
       tr_language_code = Some ''en'', tr_audio_duration = None,
       tr_utterances = None, tr_words = Some ws \<rparr>"

abbreviation text_response :: provider_response where
  "text_response \<equiv>
     \<lparr> tr_status = ''completed'', tr_error = Undefined, tr_text = Some ''hi hello'',
       tr_language_code = Some ''en'', tr_audio_duration = Some 4,
       tr_utterances = None, tr_words = None \<rparr>"

abbreviation error_response :: provider_response where
  "error_response \<equiv>
     \<lparr> tr_status = ''error'', tr_error = Message ''Audio file is corrupt'', tr_text = None,
       tr_language_code = None, tr_audio_duration = None,
       tr_utterances = None, tr_words = None \<rparr>"

abbreviation spoken :: "real \<Rightarrow> string \<Rightarrow> string \<Rightarrow> aword" where
  "spoken t0 txt sp \<equiv> \<lparr> w_start = t0, w_end = t0 + 100, w_text = txt, w_speaker = Some sp \<rparr>"

abbreviation steady_words :: "nat \<Rightarrow> aword list" where
  "steady_words n \<equiv>
     map (\<lambda>k. \<lparr> w_start = real (100 * k), w_end = real (100 * k + 100), w_text = ''ok'',
                w_speaker = Some ''A'' \<rparr>) [0..<n]"

abbreviation two_segments :: "segment list" where
  "two_segments \<equiv>
     [\<lparr> seg_start = 0, seg_end = 2, seg_text = ''hi'', seg_speaker = Some ''Speaker A'' \<rparr>,
      \<lparr> seg_start = 2, seg_end = 4, seg_text = ''hello'', seg_speaker = Some ''Speaker B'' \<rparr>]"

abbreviation segments_text :: string where
  \<open>segments_text \<equiv> ''[{"start":0,"end":2,"text":"hi","speaker":"Speaker A"},{"start":2,"end":4,"text":"hello","speaker":"Speaker B"}]''\<close>

abbreviation jane_mapping :: SpeakerMapping where
  "jane_mapping \<equiv> [(''Speaker A'', ''Jane Doe'')]"

abbreviation jane_text :: string where
  \<open>jane_text \<equiv> ''{"Speaker A":"Jane Doe"}''\<close>

abbreviation blank_mapping :: SpeakerMapping where
  "blank_mapping \<equiv> [(''Speaker B'', '''')]"

abbreviation blank_text :: string where
  \<open>blank_text \<equiv> ''{"Speaker B":""}''\<close>

abbreviation narrator_mapping :: SpeakerMapping where
  "narrator_mapping \<equiv> [('''', ''Narrator'')]"

abbreviation narrator_text :: string where
  \<open>narrator_text \<equiv> ''{"":"Narrator"}''\<close>

abbreviation example_json :: json where
  "example_json \<equiv>
     \<lparr> stringify_segments = (\<lambda>segs. if segs = two_segments then segments_text else ''[]''),
       parse_segments =
         (\<lambda>x. if x = segments_text then Some two_segments
              else if x = ''[]'' then Some [] else None),
       stringify_mapping =
         (\<lambda>m. if m = jane_mapping then jane_text
              else if m = blank_mapping then blank_text
              else if m = narrator_mapping then narrator_text else ''{}''),
       parse_mapping =
         (\<lambda>x. if x = jane_text then Some jane_mapping
              else if x = blank_text then Some blank_mapping
              else if x = narrator_text then Some narrator_mapping
              else if x = ''{}'' then Some [] else None) \<rparr>"

abbreviation example_recording :: recording where
  "example_recording \<equiv>
     \<lparr> rec_filename = ''f1.mp3'', rec_originalFilename = ''call.mp3'',
       rec_duration = None, rec_status = ''PROCESSING'' \<rparr>"

text \<open>A database with one recording and no transcript.\<close>

abbreviation fresh_state :: state where
  "fresh_state \<equiv>
     \<lparr> recordings = [''rec1'' \<mapsto> example_recording], transcripts = Map.empty,
       identifyCalls = 0 \<rparr>"

text \<open>A database after a transcription of the two utterances, with \<open>names\<close> stored.\<close>

abbreviation stored_state :: "string option \<Rightarrow> state" where
  "stored_state names \<equiv>
     \<lparr> recordings = [''rec1'' \<mapsto> example_recording\<lparr> rec_status := ''COMPLETED'' \<rparr>],
       transcripts = [''rec1'' \<mapsto>
         \<lparr> tx_content = segments_text, tx_rawTranscript = ''hi hello'', tx_speakerCount = 2,
           tx_confidenceScore = None, tx_language = Some ''en'', tx_speakerNames = names,
           tx_speakerIdentified = (names \<noteq> None) \<rparr>],
       identifyCalls = 0 \<rparr>"

text \<open>A world whose chat endpoint always throws.\<close>

abbreviation example_world :: "provider_response \<Rightarrow> world" where
  "example_world t \<equiv>
     \<lparr> statSync = (\<lambda>p. Some 1024), transcribe = (\<lambda>p. Inr t), ffprobe = (\<lambda>p. None),
       chat = (\<lambda>segs raw. Inl (Error ''429 rate limit'')),
       speakerIdentificationService = True \<rparr>"

section \<open>Trimming\<close>

text \<open>
  Trimming removes a no-break space (U+00A0, bytes C2 A0) and a byte order mark (U+FEFF)
  as it removes a blank, and leaves alone a letter whose encoding ends in the byte A0
  (U+00E0, bytes C3 A0).
\<close>

lemma js_trim_examples:
  "js_trim ('' a b '' @ [CHR 0xC2, CHR 0xA0, CHR 0x0A]) = ''a b''"
  "js_trim ([CHR 0xEF, CHR 0xBB, CHR 0xBF] @ ''voil'' @ [CHR 0xC3, CHR 0xA0])
     = ''voil'' @ [CHR 0xC3, CHR 0xA0]"
  "js_trim ''   '' = []"
  by code_simp+

section \<open>Utterance-level input\<close>

lemma speaker_label_cases:
  "speaker_label x = (case x of None \<Rightarrow> None
                      | Some s \<Rightarrow> if s = [] then None else Some (''Speaker '' @ s))"
  by (simp add: speaker_label_def truthy_str_def or_str_def split: option.splits)

lemma or_str_Some [simp]: "or_str (Some s) [] = s"
  by (simp add: or_str_def)

lemma or_real_Some [simp]: "or_real (Some x) 0 = x"
  by (simp add: or_real_def)

text \<open>
  C1 (as amended). For every provider response with an \<^verbatim>\<open>utterances\<close> array the
  normalizer returns one segment per utterance, in the same order; segment \<open>i\<close> has the
  utterance's start and end divided by 1000 and the utterance's text, and its speaker is
  \<open>Speaker\<close> followed by the utterance's speaker id when that id is present and not the
  empty string, and absent otherwise.
\<close>

theorem utterances_give_segments:
  assumes "tr_utterances t = Some us"
  shows "length (parseAssemblyAISegmentsWithSpeakers t) = length us \<and>
         (\<forall>i<length us.
            seg_start (parseAssemblyAISegmentsWithSpeakers t ! i) = u_start (us ! i) / 1000 \<and>
            seg_end (parseAssemblyAISegmentsWithSpeakers t ! i) = u_end (us ! i) / 1000 \<and>
            seg_text (parseAssemblyAISegmentsWithSpeakers t ! i) = u_text (us ! i) \<and>
            seg_speaker (parseAssemblyAISegmentsWithSpeakers t ! i) =
              (case u_speaker (us ! i) of
                 None \<Rightarrow> None
               | Some x \<Rightarrow> if x = [] then None else Some (''Speaker '' @ x)))"
  using assms
  by (simp add: parseAssemblyAISegmentsWithSpeakers_def utterance_segment_def
      speaker_label_cases)

text \<open>
  The scenario of the specification: two utterances of speakers A and B, at 0-2000 ms
  and 2000-4000 ms.
\<close>

theorem utterances_give_segments_witness:
  "length (parseAssemblyAISegmentsWithSpeakers (utterances_response two_utterances)) = 2 \<and>
   seg_start (parseAssemblyAISegmentsWithSpeakers (utterances_response two_utterances) ! 1) = 2 \<and>
   seg_end (parseAssemblyAISegmentsWithSpeakers (utterances_response two_utterances) ! 1) = 4 \<and>
   seg_text (parseAssemblyAISegmentsWithSpeakers (utterances_response two_utterances) ! 1)
     = ''hello'' \<and>
   seg_speaker (parseAssemblyAISegmentsWithSpeakers (utterances_response two_utterances) ! 1)
     = Some ''Speaker B''"
proof -
  have h: "tr_utterances (utterances_response two_utterances) = Some two_utterances"
    by simp
  note r = utterances_give_segments [OF h]
  have len: "length (parseAssemblyAISegmentsWithSpeakers (utterances_response two_utterances)) = 2"
    using r [THEN conjunct1] by simp
  have at1:
    "seg_start (parseAssemblyAISegmentsWithSpeakers (utterances_response two_utterances) ! 1) = 2 \<and>
     seg_end (parseAssemblyAISegmentsWithSpeakers (utterances_response two_utterances) ! 1) = 4 \<and>
     seg_text (parseAssemblyAISegmentsWithSpeakers (utterances_response two_utterances) ! 1)
       = ''hello'' \<and>
     seg_speaker (parseAssemblyAISegmentsWithSpeakers (utterances_response two_utterances) ! 1)
       = Some ''Speaker B''"
    using r [THEN conjunct2, rule_format, of 1] by simp
  from len at1 show ?thesis
    by simp
qed

text \<open>
  The claim as first stated promises \<open>Speaker\<close> followed by the id whenever the id is
  present. An utterance whose speaker id is the empty string has its id present, and the
  guard \<^verbatim>\<open>if (utterance.speaker)\<close> leaves its segment without a speaker.
\<close>

theorem utterances_empty_speaker_counterexample:
  "u_speaker \<lparr> u_start = 0, u_end = 1000, u_text = ''hi'', u_speaker = Some '''' \<rparr> = Some '''' \<and>
   map seg_speaker (parseAssemblyAISegmentsWithSpeakers
      (utterances_response
         [\<lparr> u_start = 0, u_end = 1000, u_text = ''hi'', u_speaker = Some '''' \<rparr>])) = [None] \<and>
   [None] \<noteq> [Some (''Speaker '' @ '''')]"
  by (simp add: parseAssemblyAISegmentsWithSpeakers_def utterance_segment_def
      speaker_label_cases)

section \<open>Word-level input\<close>

subsection \<open>The loop, one pass at a time\<close>

text \<open>
  The loop only ever appends to \<open>segments\<close>, and its pass over the last word always
  appends: on a non-empty word list the result is not empty.
\<close>

lemma words_loop_step:
  "i < length ws \<Longrightarrow> words_loop ws i st = words_loop ws (Suc i) (loop_body ws i st)"
  by (subst words_loop.simps) simp

lemma words_loop_done:
  "length ws \<le> i \<Longrightarrow> words_loop ws i st = st"
  by (subst words_loop.simps) simp

lemma loop_body_grows:
  "length (segments st) \<le> length (segments (loop_body ws i st))"
  by (simp add: loop_body_def Let_def)

lemma loop_body_last_pushes:
  "Suc i = length ws \<Longrightarrow> length (segments (loop_body ws i st)) = Suc (length (segments st))"
  by (simp add: loop_body_def Let_def)

lemma words_loop_pushes:
  "i < length ws \<Longrightarrow> length (segments st) < length (segments (words_loop ws i st))"
proof (induction ws i st rule: words_loop.induct)
  case (1 ws i st)
  show ?case
  proof (cases "Suc i < length ws")
    case True
    from "1.IH" [OF "1.prems" True]
    have "length (segments (loop_body ws i st)) < length (segments (words_loop ws (Suc i) (loop_body ws i st)))" .
    with loop_body_grows [of st ws i] show ?thesis
      by (simp add: words_loop_step [OF "1.prems"])
  next
    case False
    with "1.prems" have last: "Suc i = length ws"
      by simp
    then show ?thesis
      by (simp add: words_loop_step [OF "1.prems"] words_loop_done loop_body_last_pushes)
  qed
qed

subsection \<open>Time order\<close>

text \<open>On words in time order every pass keeps \<open>loop_inv\<close>.\<close>

lemma sorted_starts:
  "sorted (map w_start ws) \<Longrightarrow> i \<le> j \<Longrightarrow> j < length ws \<Longrightarrow> w_start (ws ! i) \<le> w_start (ws ! j)"
  using sorted_nth_mono [of "map w_start ws" i j] by simp

lemma loop_body_inv:
  assumes srt: "sorted (map w_start ws)" and i: "i < length ws"
      and inv: "if i = 0 then segments st = [] else loop_inv ws i st"
  shows "loop_inv ws (Suc i) (loop_body ws i st)"
proof -
  define W where "W j = w_start (ws ! j) / 1000" for j
  define st1 where "st1 = (if i = 0
                 then st\<lparr> segmentStart := W i,
                           currentSpeaker := speaker_label (w_speaker (ws ! i)) \<rparr>
                 else st)"
  have mono: "W j \<le> W k" if "j \<le> k" "k < length ws" for j k
    using sorted_starts [OF srt that] by (simp add: W_def)
  have inv1: "loop_inv ws i st1"
    using inv mono [of 0] by (auto simp: st1_def loop_inv_def W_def)
  have srt1: "sorted (map seg_start (segments st1))"
    using inv1 by (simp add: loop_inv_def)
  have le: "segmentStart st1 \<le> W j" if "i \<le> j" "j < length ws" for j
    using inv1 that by (simp add: loop_inv_def W_def)
  have old: "seg_start s \<le> segmentStart st1" if "s \<in> set (segments st1)" for s
    using inv1 that by (simp add: loop_inv_def)
  have old': "seg_start s \<le> W j" if "s \<in> set (segments st1)" "i \<le> j" "j < length ws" for s j
    using old [OF that(1)] le [OF that(2,3)] by simp
  have body: "loop_body ws i st =
     (let word = ws ! i;
          wordSpeaker = speaker_label (w_speaker word);
          speakerChanged = (wordSpeaker \<noteq> currentSpeaker st1);
          st2 = st1\<lparr> currentSegment := currentSegment st1 @ w_text word @ '' '' \<rparr>
      in if speakerChanged \<or> ends_sentence (w_text word) \<or> (i > 0 \<and> i mod 50 = 0)
            \<or> Suc i = length ws
         then
           (let seg = \<lparr> seg_start = segmentStart st2,
                        seg_end = w_end word / 1000,
                        seg_text = js_trim (currentSegment st2),
                        seg_speaker = (if truthy_str (currentSpeaker st2)
                                       then currentSpeaker st2 else None) \<rparr>;
                st3 = st2\<lparr> segments := segments st2 @ [seg] \<rparr>
            in if speakerChanged
               then st3\<lparr> currentSpeaker := wordSpeaker,
                         segmentStart := W i,
                         currentSegment := w_text word @ '' '' \<rparr>
               else
                 (let st4 = st3\<lparr> currentSegment := [] \<rparr>
                  in if Suc i < length ws
                     then st4\<lparr> segmentStart := W (Suc i),
                               currentSpeaker := speaker_label (w_speaker (ws ! Suc i)) \<rparr>
                     else st4))
         else st2)"
    by (simp add: loop_body_def st1_def Let_def W_def)
  show ?thesis
    unfolding body loop_inv_def Let_def W_def [symmetric]
    using srt1 old old' i le mono 
    by (auto simp: sorted_append)
qed

lemma words_loop_inv:
  "sorted (map w_start ws) \<Longrightarrow> i < length ws \<Longrightarrow>
   (if i = 0 then segments st = [] else loop_inv ws i st) \<Longrightarrow>
   loop_inv ws (length ws) (words_loop ws i st)"
proof (induction ws i st rule: words_loop.induct)
  case (1 ws i st)
  have b: "loop_inv ws (Suc i) (loop_body ws i st)"
    using loop_body_inv [OF "1.prems"] .
  show ?case
  proof (cases "Suc i < length ws")
    case True
    from "1.IH" [OF "1.prems"(2) "1.prems"(1) True] b show ?thesis
      by (simp add: words_loop_step [OF "1.prems"(2)])
  next
    case False
    with "1.prems"(2) have "Suc i = length ws"
      by simp
    with b show ?thesis
      by (simp add: words_loop_step [OF "1.prems"(2)] words_loop_done)
  qed
qed

lemma words_segments_sorted:
  assumes "sorted (map w_start ws)"
  shows "sorted (map seg_start (segments (words_loop ws 0 init_state)))"
proof (cases "ws = []")
  case True
  then show ?thesis
    by (simp add: words_loop_done init_state_def)
next
  case False
  then have "loop_inv ws (length ws) (words_loop ws 0 init_state)"
    using words_loop_inv [OF assms, of 0 init_state] by (simp add: init_state_def)
  then show ?thesis
    by (simp add: loop_inv_def)
qed

lemma words_segments_nonempty:
  "ws \<noteq> [] \<Longrightarrow> segments (words_loop ws 0 init_state) \<noteq> []"
  using words_loop_pushes [of 0 ws init_state] by auto

subsection \<open>Where the index test cuts\<close>

text \<open>
  \<open>cut_at\<close> from index 0 is \<open>word_chunks\<close>: the first cut is after index 50, every
  later one 50 words on. Between two cuts the index is not a multiple of 50.
\<close>

lemma mod50_run: "i mod 50 = 1 \<Longrightarrow> i \<le> j \<Longrightarrow> j < i + 49 \<Longrightarrow> (j::nat) mod 50 \<noteq> 0"
proof -
  assume a: "i mod 50 = 1" "i \<le> j" "j < i + 49"
  then obtain d where d: "j = i + d" "d < 49"
    by (metis add_less_cancel_left le_Suc_ex)
  have "(i + d) mod 50 = (i mod 50 + d) mod 50"
    by (simp add: mod_add_left_eq)
  also have "\<dots> = 1 + d"
    using a(1) d(2) by simp
  finally show ?thesis
    using d by simp
qed

lemma mod50_next: "i mod 50 = 1 \<Longrightarrow> (i + 49) mod 50 = 0 \<and> (i + 50) mod 50 = (1::nat)"
proof -
  assume a: "i mod 50 = 1"
  have "(i + 49) mod 50 = (i mod 50 + 49) mod 50"
    by (simp add: mod_add_left_eq)
  with a show ?thesis
    by simp
qed

lemma drop_Cons_split:
  "drop k xs = w # r \<Longrightarrow> take (Suc k) xs = take k xs @ [w] \<and> drop (Suc k) xs = r"
proof -
  assume d: "drop k xs = w # r"
  then have k: "k < length xs"
    by (cases "k < length xs") auto
  from Cons_nth_drop_Suc [OF k] d have "xs ! k = w" "drop (Suc k) xs = r"
    by auto
  with take_Suc_conv_app_nth [OF k] show ?thesis
    by simp
qed

lemma cut_run:
  "k < length rest \<Longrightarrow> (\<forall>j. i \<le> j \<and> j < i + k \<longrightarrow> \<not> (j > 0 \<and> j mod 50 = 0)) \<Longrightarrow>
   cut_at i acc rest = cut_at (i + k) (acc @ take k rest) (drop k rest)"
proof (induction k arbitrary: i acc rest)
  case 0
  then show ?case by simp
next
  case (Suc k)
  then obtain w rest' where r: "rest = w # rest'" "k < length rest'"
    by (cases rest) auto
  then have ne: "rest' \<noteq> []"
    by auto
  have nb: "\<not> (i > 0 \<and> i mod 50 = 0)"
    using Suc.prems(2) [rule_format, of i] by simp
  have "\<forall>j. Suc i \<le> j \<and> j < Suc i + k \<longrightarrow> \<not> (j > 0 \<and> j mod 50 = 0)"
  proof (intro allI impI)
    fix j assume "Suc i \<le> j \<and> j < Suc i + k"
    then have "i \<le> j \<and> j < i + Suc k"
      by simp
    from Suc.prems(2) [rule_format, OF this] show "\<not> (j > 0 \<and> j mod 50 = 0)" .
  qed
  from Suc.IH [OF r(2) this, of "acc @ [w]"] r ne nb show ?case
    by auto
qed

lemma cut_rest:
  "rest \<noteq> [] \<Longrightarrow> (\<forall>j. i \<le> j \<and> Suc j < i + length rest \<longrightarrow> \<not> (j > 0 \<and> j mod 50 = 0)) \<Longrightarrow>
   cut_at i acc rest = [acc @ rest]"
proof (induction rest arbitrary: i acc)
  case Nil
  then show ?case by simp
next
  case (Cons w rest)
  show ?case
  proof (cases "rest = []")
    case True
    then show ?thesis by simp
  next
    case False
    then have "i \<le> i \<and> Suc i < i + length (w # rest)"
      by (cases rest) auto
    from Cons.prems(2) [rule_format, OF this]
    have nb: "\<not> (i > 0 \<and> i mod 50 = 0)" .
    have "\<forall>j. Suc i \<le> j \<and> Suc j < Suc i + length rest \<longrightarrow> \<not> (j > 0 \<and> j mod 50 = 0)"
    proof (intro allI impI)
      fix j assume "Suc i \<le> j \<and> Suc j < Suc i + length rest"
      then have "i \<le> j \<and> Suc j < i + length (w # rest)"
        by simp
      from Cons.prems(2) [rule_format, OF this] show "\<not> (j > 0 \<and> j mod 50 = 0)" .
    qed
    from Cons.IH [OF False this, of "acc @ [w]"] nb False show ?thesis
      by auto
  qed
qed

lemma chunks_of_Nil [simp]: "chunks_of k [] = []"
  by (simp add: chunks_of.simps [of k "[]"])

lemma chunks_of_step:
  "xs \<noteq> [] \<Longrightarrow> 0 < k \<Longrightarrow> chunks_of k xs = take k xs # chunks_of k (drop k xs)"
  by (subst chunks_of.simps) simp

lemma cut_chunks:
  "i mod 50 = 1 \<Longrightarrow> cut_at i [] rest = chunks_of 50 rest"
proof (induction "length rest" arbitrary: i rest rule: less_induct)
  case less
  show ?case
  proof (cases "rest = []")
    case True
    then show ?thesis
      by simp
  next
    case ne: False
    show ?thesis
    proof (cases "length rest \<le> 50")
      case True
      have "\<forall>j. i \<le> j \<and> Suc j < i + length rest \<longrightarrow> \<not> (j > 0 \<and> j mod 50 = 0)"
      proof (intro allI impI)
        fix j assume "i \<le> j \<and> Suc j < i + length rest"
        with True have "i \<le> j" "j < i + 49"
          by auto
        from mod50_run [OF less.prems this] show "\<not> (j > 0 \<and> j mod 50 = 0)"
          by simp
      qed
      from cut_rest [OF ne this, of "[]"] have "cut_at i [] rest = [rest]"
        by simp
      moreover have "chunks_of 50 rest = [rest]"
        using True by (subst chunks_of_step [OF ne]) simp_all
      ultimately show ?thesis
        by simp
    next
      case False
      then have len: "49 < length rest"
        by simp
      have "\<forall>j. i \<le> j \<and> j < i + 49 \<longrightarrow> \<not> (j > 0 \<and> j mod 50 = 0)"
      proof (intro allI impI)
        fix j assume "i \<le> j \<and> j < i + 49"
        then have "i \<le> j" "j < i + 49"
          by auto
        from mod50_run [OF less.prems this] show "\<not> (j > 0 \<and> j mod 50 = 0)"
          by simp
      qed
      from cut_run [OF len this, of "[]"]
      have a: "cut_at i [] rest = cut_at (i + 49) (take 49 rest) (drop 49 rest)"
        by simp
      obtain w r' where d: "drop 49 rest = w # r'"
        using len by (cases "drop 49 rest") auto
      have "Suc 49 = (50::nat)"
        by simp
      with drop_Cons_split [OF d] have t: "take 50 rest = take 49 rest @ [w]" "drop 50 rest = r'"
        by (simp_all only:)
      note b = mod50_next [OF less.prems]
      have "length (drop 50 rest) < length rest"
        using len by simp
      from less.hyps [OF this conjunct2 [OF b]]
      have "cut_at (i + 50) [] r' = chunks_of 50 r'"
        by (simp only: t)
      moreover have "cut_at (i + 49) (take 49 rest) (w # r') = take 50 rest # cut_at (Suc (i + 49)) [] r'"
        using conjunct1 [OF b] by (simp add: t)
      moreover have "Suc (i + 49) = i + 50"
        by simp
      ultimately have "cut_at i [] rest = take 50 rest # chunks_of 50 (drop 50 rest)"
        using a d t(2) by (simp only:)
      then show ?thesis
        by (subst chunks_of_step [OF ne]) simp_all
    qed
  qed
qed

lemma cut_word_chunks: "cut_at 0 [] ws = word_chunks ws"
proof (cases "length ws \<le> 51")
  case True
  show ?thesis
  proof (cases "ws = []")
    case True
    then show ?thesis
      by (simp add: word_chunks_def)
  next
    case False
    have "\<forall>j::nat. 0 \<le> j \<and> Suc j < 0 + length ws \<longrightarrow> \<not> (j > 0 \<and> j mod 50 = 0)"
      using True by auto
    from cut_rest [OF False this, of "[]"] True False show ?thesis
      by (simp add: word_chunks_def)
  qed
next
  case False
  then have len: "50 < length ws"
    by simp
  then have ne: "ws \<noteq> []"
    by auto
  have "\<forall>j::nat. 0 \<le> j \<and> j < 0 + 50 \<longrightarrow> \<not> (j > 0 \<and> j mod 50 = 0)"
    by auto
  from cut_run [OF len this, of "[]"]
  have a: "cut_at 0 [] ws = cut_at 50 (take 50 ws) (drop 50 ws)"
    by simp
  obtain w r' where d: "drop 50 ws = w # r'"
    using len by (cases "drop 50 ws") auto
  have "Suc 50 = (51::nat)"
    by simp
  with drop_Cons_split [OF d] have t: "take 51 ws = take 50 ws @ [w]" "drop 51 ws = r'"
    by (simp_all only:)
  have "length (drop 51 ws) \<noteq> 0"
    using False by simp
  then have r: "r' \<noteq> []"
    using t(2) by auto
  have "(51::nat) mod 50 = 1"
    by simp
  from cut_chunks [OF this] have c: "cut_at 51 [] r' = chunks_of 50 r'" .
  have "cut_at 50 (take 50 ws) (w # r') = take 51 ws # cut_at (Suc 50) [] r'"
    using r by (simp add: t)
  with a d c t(2) \<open>Suc 50 = 51\<close> have "cut_at 0 [] ws = take 51 ws # chunks_of 50 (drop 51 ws)"
    by (simp only:)
  with ne show ?thesis
    by (simp only: word_chunks_def if_False)
qed

lemma length_chunks_of: "length (chunks_of 50 xs) = (length xs + 49) div 50"
proof (induction "length xs" arbitrary: xs rule: less_induct)
  case less
  show ?case
  proof (cases "xs = []")
    case True
    then show ?thesis by simp
  next
    case False
    then have "length (drop 50 xs) < length xs"
      by simp
    from less.hyps [OF this]
    have "length (chunks_of 50 xs) = Suc ((length xs - 50 + 49) div 50)"
      by (subst chunks_of_step [OF False]) simp_all
    also have "\<dots> = (length xs + 49) div 50"
    proof (cases "length xs < 50")
      case True
      from False obtain k where k: "length xs = Suc k"
        by (cases xs) auto
      with True have "k div 50 = 0"
        by simp
      moreover have "(length xs + 49) div 50 = (k + 50) div 50"
        using k by simp
      moreover have "length xs - 50 = 0"
        using True by simp
      ultimately show ?thesis
        by simp
    next
      case False
      then obtain m where "length xs = 50 + m"
        by (metis le_Suc_ex linorder_not_less)
      then show ?thesis by simp
    qed
    finally show ?thesis .
  qed
qed

lemma concat_chunks_of: "concat (chunks_of 50 xs) = xs"
proof (induction "length xs" arbitrary: xs rule: less_induct)
  case less
  show ?case
  proof (cases "xs = []")
    case True
    then show ?thesis by simp
  next
    case False
    then have "length (drop 50 xs) < length xs"
      by simp
    from less.hyps [OF this] show ?thesis
      by (subst chunks_of_step [OF False]) simp_all
  qed
qed

lemma length_inner_chunks_of:
  "Suc j < length (chunks_of 50 xs) \<Longrightarrow> length (chunks_of 50 xs ! j) = 50"
proof (induction j arbitrary: xs)
  case 0
  then have ne: "xs \<noteq> []"
    by auto
  from 0 have "drop 50 xs \<noteq> []"
    by (subst (asm) chunks_of_step [OF ne]) auto
  then show ?case
    by (subst chunks_of_step [OF ne]) auto
next
  case (Suc j)
  then have ne: "xs \<noteq> []"
    by auto
  from Suc.prems have "Suc j < length (chunks_of 50 (drop 50 xs))"
    by (subst (asm) chunks_of_step [OF ne]) auto
  from Suc.IH [OF this] show ?case
    by (subst chunks_of_step [OF ne]) auto
qed

lemma chunks_of_nonempty: "[] \<notin> set (chunks_of 50 xs)"
proof (induction "length xs" arbitrary: xs rule: less_induct)
  case less
  show ?case
  proof (cases "xs = []")
    case True
    then show ?thesis by simp
  next
    case False
    then have "length (drop 50 xs) < length xs"
      by simp
    from less.hyps [OF this] False show ?thesis
      by (subst chunks_of_step [OF False]) simp_all
  qed
qed

lemma word_chunks_nonempty: "[] \<notin> set (word_chunks ws)"
  by (simp add: word_chunks_def chunks_of_nonempty)

lemma length_word_chunks:
  "length (word_chunks ws) = (if ws = [] then 0 else max 1 ((length ws + 48) div 50))"
proof (cases "length ws \<le> 51")
  case True
  then show ?thesis
    by (auto simp: word_chunks_def length_chunks_of)
next
  case False
  then obtain m where m: "length ws = 52 + m"
    by (metis Suc_leI le_Suc_ex linorder_not_le numeral_Bit0 numeral_Bit1 Suc_eq_plus1 add_Suc_right
        numeral_plus_one semiring_norm(2) semiring_norm(8))
  then have "ws \<noteq> []"
    by auto
  with m show ?thesis
    by (simp add: word_chunks_def length_chunks_of)
qed

subsection \<open>The loop on words of one speaker\<close>

text \<open>
  With one inferred speaker and no sentence end, the speaker and punctuation tests of
  line 206 never fire, and the loop cuts where \<open>cut_at\<close> does. \<open>acc\<close> is the run of
  words collected in \<open>currentSegment\<close> so far.
\<close>

lemma speaker_label_truthy:
  "(if truthy_str (speaker_label x) then speaker_label x else None) = speaker_label x"
  by (simp add: speaker_label_def truthy_str_def)

lemma drop_Cons_facts:
  assumes "drop i ws = w # rest"
  shows "i < length ws" "ws ! i = w" "drop (Suc i) ws = rest"
        "(Suc i = length ws) = (rest = [])" "(Suc i < length ws) = (rest \<noteq> [])"
        "rest \<noteq> [] \<Longrightarrow> ws ! Suc i = hd rest" "w \<in> set ws" "set rest \<subseteq> set ws"
proof -
  show k: "i < length ws"
    using assms by (cases "i < length ws") auto
  from Cons_nth_drop_Suc [OF k] assms show n: "ws ! i = w" and d: "drop (Suc i) ws = rest"
    by auto
  from d have "length rest = length ws - Suc i"
    by (metis length_drop)
  then have "(length rest = 0) = (Suc i = length ws)"
    using k by linarith
  then show "(Suc i = length ws) = (rest = [])" "(Suc i < length ws) = (rest \<noteq> [])"
    using k by auto
  show "rest \<noteq> [] \<Longrightarrow> ws ! Suc i = hd rest"
    using d by (metis hd_drop_conv_nth drop_eq_Nil linorder_not_le)
  show "w \<in> set ws"
    using n k by (metis nth_mem)
  show "set rest \<subseteq> set ws"
    using d by (metis set_drop_subset)
qed

lemma words_loop_cut:
  assumes uni: "\<forall>w \<in> set ws. speaker_label (w_speaker w) = sp \<and> \<not> ends_sentence (w_text w)"
  shows "drop i ws = rest \<Longrightarrow> (i = 0 \<longrightarrow> acc = []) \<Longrightarrow> (i > 0 \<longrightarrow> currentSpeaker st = sp) \<Longrightarrow>
         (i > 0 \<longrightarrow> rest \<noteq> [] \<longrightarrow> segmentStart st = w_start (hd (acc @ rest)) / 1000) \<Longrightarrow>
         currentSegment st = concat (map (\<lambda>w. w_text w @ '' '') acc) \<Longrightarrow>
         segments (words_loop ws i st)
           = segments st @ map (chunk_segment sp) (cut_at i acc rest)"
proof (induction rest arbitrary: i acc st)
  case Nil
  then have "length ws \<le> i"
    by simp
  then show ?case
    by (simp add: words_loop_done)
next
  case (Cons w rest)
  note f = drop_Cons_facts [OF Cons.prems(1)]
  from uni f(7) have w: "speaker_label (w_speaker w) = sp" "\<not> ends_sentence (w_text w)"
    by auto
  have nxt: "speaker_label (w_speaker (hd rest)) = sp" if "rest \<noteq> []"
    using uni f(8) that by (metis hd_in_set subsetD)
  have tr: "(if truthy_str sp then sp else None) = sp"
    using speaker_label_truthy [of "w_speaker w"] unfolding w(1) .
  have start: "segmentStart st = w_start (hd (acc @ [w])) / 1000" if "i > 0"
    using Cons.prems(4) that by (simp add: hd_append)
  let ?st' = "loop_body ws i st"
  have step: "words_loop ws i st = words_loop ws (Suc i) ?st'"
    by (rule words_loop_step [OF f(1)])
  show ?case
  proof (cases "(i > 0 \<and> i mod 50 = 0) \<or> rest = []")
    case True
    have segs: "segments ?st' = segments st @ [chunk_segment sp (acc @ [w])]"
      using True Cons.prems(2,3,5) start f(2,4,5) w tr
      by (cases "i = 0") (auto simp: loop_body_def Let_def chunk_segment_def words_text_def)
    have cs: "currentSegment ?st' = concat (map (\<lambda>w. w_text w @ '' '') [])"
      using True Cons.prems(2,3) f(2,4,5) w
      by (cases "i = 0") (auto simp: loop_body_def Let_def)
    have sp': "currentSpeaker ?st' = sp"
      using True Cons.prems(2,3) f(2,4,5,6) w nxt
      by (cases "i = 0") (auto simp: loop_body_def Let_def)
    have st': "segmentStart ?st' = w_start (hd ([] @ rest)) / 1000" if "rest \<noteq> []"
      using True Cons.prems(2,3) f(2,4,5,6) w that
      by (cases "i = 0") (auto simp: loop_body_def Let_def)
    from Cons.IH [of "Suc i" "[]" ?st', OF f(3)] cs sp' st' segs
    have "segments (words_loop ws (Suc i) ?st')
           = (segments st @ [chunk_segment sp (acc @ [w])]) @ map (chunk_segment sp) (cut_at (Suc i) [] rest)"
      by simp
    with True step show ?thesis
      by auto
  next
    case False
    have segs: "segments ?st' = segments st"
      using False Cons.prems(2,3) f(2,4,5) w
      by (cases "i = 0") (auto simp: loop_body_def Let_def)
    have cs: "currentSegment ?st' = concat (map (\<lambda>w. w_text w @ '' '') (acc @ [w]))"
      using False Cons.prems(2,3,5) f(2,4,5) w
      by (cases "i = 0") (auto simp: loop_body_def Let_def)
    have sp': "currentSpeaker ?st' = sp"
      using False Cons.prems(2,3) f(2,4,5) w
      by (cases "i = 0") (auto simp: loop_body_def Let_def)
    have st': "segmentStart ?st' = w_start (hd ((acc @ [w]) @ rest)) / 1000"
      using False Cons.prems(2,3) start f(2,4,5) w
      by (cases "i = 0") (auto simp: loop_body_def Let_def hd_append)
    from Cons.IH [of "Suc i" "acc @ [w]" ?st', OF f(3)] cs sp' st' segs
    have "segments (words_loop ws (Suc i) ?st')
           = segments st @ map (chunk_segment sp) (cut_at (Suc i) (acc @ [w]) rest)"
      by simp
    with False step show ?thesis
      by auto
  qed
qed

lemma concat_word_chunks: "concat (word_chunks ws) = ws"
  by (simp add: word_chunks_def concat_chunks_of)

lemma uniform_words_segments:
  assumes "\<forall>w \<in> set ws. speaker_label (w_speaker w) = sp \<and> \<not> ends_sentence (w_text w)"
  shows "segments (words_loop ws 0 init_state) = map (chunk_segment sp) (word_chunks ws)"
proof -
  have "segments (words_loop ws 0 init_state)
          = segments init_state @ map (chunk_segment sp) (cut_at 0 [] ws)"
    by (rule words_loop_cut [OF assms]) (simp_all add: init_state_def)
  then show ?thesis
    by (simp add: cut_word_chunks init_state_def)
qed

lemma steady_words_uniform:
  "\<forall>w \<in> set (steady_words n). speaker_label (w_speaker w) = Some ''Speaker A''
     \<and> \<not> ends_sentence (w_text w)"
  by (simp add: speaker_label_cases ends_sentence_def)

text \<open>
  C2 (as amended). For every provider response containing only a \<^verbatim>\<open>words\<close> array in
  which every word has the same inferred speaker \<open>sp\<close> and no word's text ends in a full
  stop, \<open>!\<close> or \<open>?\<close>, the normalizer returns one segment per chunk of \<open>word_chunks\<close>,
  built from exactly the words of that chunk and tagged \<open>sp\<close>; the chunks are non-empty
  and, put end to end, are the word list. The first segment holds
  the first 51 words (all of them when there are fewer), every later segment except
  possibly the last holds exactly 50, and for a non-empty list there are
  \<open>max 1 (ceil ((n - 1) / 50))\<close> segments. In particular 51 such words of speaker A give
  exactly one segment, of 51 words, tagged \<open>Speaker A\<close>.
\<close>

theorem uniform_words_chunking:
  assumes "tr_utterances t = None" and "tr_words t = Some ws"
      and "\<forall>w \<in> set ws. speaker_label (w_speaker w) = sp \<and> \<not> ends_sentence (w_text w)"
  shows "parseAssemblyAISegmentsWithSpeakers t = map (chunk_segment sp) (word_chunks ws) \<and>
         length (parseAssemblyAISegmentsWithSpeakers t)
           = (if ws = [] then 0 else max 1 ((length ws + 48) div 50)) \<and>
         concat (word_chunks ws) = ws \<and> [] \<notin> set (word_chunks ws) \<and>
         (ws \<noteq> [] \<longrightarrow> length (hd (word_chunks ws)) = min 51 (length ws)) \<and>
         (\<forall>j. 0 < j \<and> Suc j < length (word_chunks ws) \<longrightarrow> length (word_chunks ws ! j) = 50)"
proof -
  have a: "parseAssemblyAISegmentsWithSpeakers t = map (chunk_segment sp) (word_chunks ws)"
    using assms(1,2) uniform_words_segments [OF assms(3)]
    by (simp add: parseAssemblyAISegmentsWithSpeakers_def)
  then have b: "length (parseAssemblyAISegmentsWithSpeakers t)
           = (if ws = [] then 0 else max 1 ((length ws + 48) div 50))"
    by (simp only: length_map length_word_chunks)
  have c: "ws \<noteq> [] \<longrightarrow> length (hd (word_chunks ws)) = min 51 (length ws)"
    by (simp add: word_chunks_def min_def)
  have d: "length (word_chunks ws ! j) = 50" if "0 < j" "Suc j < length (word_chunks ws)" for j
  proof -
    from that obtain k where k: "j = Suc k"
      by (cases j) auto
    from that(2) have ne: "ws \<noteq> []"
      by (auto simp: word_chunks_def)
    with that(2) k have "Suc k < length (chunks_of 50 (drop 51 ws))"
      by (simp add: word_chunks_def)
    from length_inner_chunks_of [OF this] ne k show ?thesis
      by (simp add: word_chunks_def)
  qed
  from a b c d concat_word_chunks word_chunks_nonempty show ?thesis
    by blast
qed

text \<open>51 and 120 words of speaker A, 100 ms each: one segment and three.\<close>

theorem uniform_words_chunking_witness:
  "length (parseAssemblyAISegmentsWithSpeakers (words_response (steady_words 51))) = 1 \<and>
   length (parseAssemblyAISegmentsWithSpeakers (words_response (steady_words 120))) = 3"
proof -
  have r: "length (parseAssemblyAISegmentsWithSpeakers (words_response (steady_words n)))
             = max 1 ((n + 48) div 50)" if "0 < n" for n
  proof -
    define ws where "ws = steady_words n"
    have h: "\<forall>w \<in> set ws. speaker_label (w_speaker w) = Some ''Speaker A''
               \<and> \<not> ends_sentence (w_text w)"
      unfolding ws_def by (rule steady_words_uniform)
    have len: "length ws = n" "ws \<noteq> []"
      using that by (auto simp: ws_def)
    have "tr_utterances (words_response ws) = None" "tr_words (words_response ws) = Some ws"
      by simp_all
    from uniform_words_chunking [OF this h, THEN conjunct2, THEN conjunct1] len
    have "length (parseAssemblyAISegmentsWithSpeakers (words_response ws))
            = max 1 ((n + 48) div 50)"
      by simp
    then show ?thesis
      unfolding ws_def .
  qed
  have "max 1 ((51 + 48) div 50) = (1::nat)" "max 1 ((120 + 48) div 50) = (3::nat)"
    by simp_all
  with r [of 51] r [of 120] show ?thesis
    by (simp only: zero_less_numeral simp_thms)
qed

text \<open>
  The claim as first stated promises \<open>ceil (51 / 50) = 2\<close> segments for 51 words of one
  speaker. The index test \<^verbatim>\<open>i > 0 && i % 50 === 0\<close> first holds at \<open>i = 50\<close>, the 51st
  word, which here is also the last: there is one segment.
\<close>

theorem fifty_one_words_one_segment_counterexample:
  "length (parseAssemblyAISegmentsWithSpeakers (words_response (steady_words 51))) = 1 \<and>
   length (parseAssemblyAISegmentsWithSpeakers (words_response (steady_words 51))) \<noteq> 2"
proof -
  define ws where "ws = steady_words 51"
  have h: "\<forall>w \<in> set ws. speaker_label (w_speaker w) = Some ''Speaker A''
             \<and> \<not> ends_sentence (w_text w)"
    unfolding ws_def by (rule steady_words_uniform)
  have len: "length ws = 51" "ws \<noteq> []"
    by (auto simp: ws_def)
  have "length (segments (words_loop ws 0 init_state)) = length (word_chunks ws)"
    by (simp only: uniform_words_segments [OF h] length_map)
  also have "\<dots> = 1"
    using len by (simp add: length_word_chunks)
  finally have "length (parseAssemblyAISegmentsWithSpeakers (words_response ws)) = 1"
    by (simp add: parseAssemblyAISegmentsWithSpeakers_def)
  then have "length (parseAssemblyAISegmentsWithSpeakers (words_response ws)) = 1 \<and>
             length (parseAssemblyAISegmentsWithSpeakers (words_response ws)) \<noteq> 2"
    by simp
  then show ?thesis
    unfolding ws_def .
qed

text \<open>
  C3. The claim: where the inferred speaker changes at word \<open>k\<close>, the segment closed
  there does not contain word \<open>k\<close>'s text, and the next segment starts at word \<open>k\<close>'s
  start. The loop appends the word to \<open>currentSegment\<close> (line 203) before it tests for the
  change (line 206), so the closed segment does contain it, ends at its end time and
  carries the previous speaker; the word is then put again at the head of the next
  segment (line 220). When word \<open>k\<close> is the last word there is no next segment at all.
  Words a (speaker A), b and c (speaker B): the segments are \<open>a b\<close> and \<open>b c\<close>; words a
  (speaker A) and b (speaker B): the only segment is \<open>a b\<close>, of speaker A.
\<close>

theorem speaker_change_word_in_both_segments:
  "parseAssemblyAISegmentsWithSpeakers
     (words_response [spoken 0 ''a'' ''A'', spoken 100 ''b'' ''B'', spoken 200 ''c'' ''B''])
   = [\<lparr> seg_start = 0, seg_end = 200 / 1000, seg_text = ''a b'', seg_speaker = Some ''Speaker A'' \<rparr>,
      \<lparr> seg_start = 100 / 1000, seg_end = 300 / 1000, seg_text = ''b c'',
        seg_speaker = Some ''Speaker B'' \<rparr>] \<and>
   parseAssemblyAISegmentsWithSpeakers
     (words_response [spoken 0 ''a'' ''A'', spoken 100 ''b'' ''B''])
   = [\<lparr> seg_start = 0, seg_end = 200 / 1000, seg_text = ''a b'', seg_speaker = Some ''Speaker A'' \<rparr>]"
  by code_simp

text \<open>
  C4 (as amended). The normalizer returns a non-empty list whenever the array it reads
  is non-empty: a non-empty \<^verbatim>\<open>utterances\<close> array, or no \<^verbatim>\<open>utterances\<close> and a non-empty
  \<^verbatim>\<open>words\<close> array, or neither array. The returned segments are ordered by
  non-decreasing start time whenever the utterances (or, without utterances, the words)
  are ordered by non-decreasing start time; with neither array there is exactly one
  segment.
\<close>

theorem normalizer_nonempty_and_ordered:
  "((case tr_utterances t of
       Some us \<Rightarrow> us \<noteq> []
     | None \<Rightarrow> (case tr_words t of Some ws \<Rightarrow> ws \<noteq> [] | None \<Rightarrow> True))
    \<longrightarrow> parseAssemblyAISegmentsWithSpeakers t \<noteq> []) \<and>
   ((case tr_utterances t of
       Some us \<Rightarrow> sorted (map u_start us)
     | None \<Rightarrow> (case tr_words t of Some ws \<Rightarrow> sorted (map w_start ws) | None \<Rightarrow> True))
    \<longrightarrow> sorted (map seg_start (parseAssemblyAISegmentsWithSpeakers t))) \<and>
   (tr_utterances t = None \<and> tr_words t = None
    \<longrightarrow> length (parseAssemblyAISegmentsWithSpeakers t) = 1)"
proof -
  have u: "sorted (map seg_start (map utterance_segment us))" if "sorted (map u_start us)" for us
  proof -
    have e: "map seg_start (map utterance_segment us) = map (\<lambda>u. u_start u / 1000) us"
      by (simp add: utterance_segment_def)
    have "sorted (map (\<lambda>u. u_start u / 1000) us)"
      using that by (induction us) (auto simp: divide_right_mono)
    then show ?thesis
      unfolding e .
  qed
  show ?thesis
    using u words_segments_sorted words_segments_nonempty
    by (auto simp: parseAssemblyAISegmentsWithSpeakers_def split: option.splits)
qed


text \<open>
  Three words in time order, with a change of speaker at the second; and a response
  with neither array.
\<close>

theorem normalizer_nonempty_and_ordered_witness:
  "parseAssemblyAISegmentsWithSpeakers
     (words_response [spoken 0 ''a'' ''A'', spoken 100 ''b'' ''B'', spoken 200 ''c'' ''B'']) \<noteq> [] \<and>
   sorted (map seg_start (parseAssemblyAISegmentsWithSpeakers
     (words_response [spoken 0 ''a'' ''A'', spoken 100 ''b'' ''B'', spoken 200 ''c'' ''B'']))) \<and>
   length (parseAssemblyAISegmentsWithSpeakers text_response) = 1"
  using normalizer_nonempty_and_ordered
    [of "words_response [spoken 0 ''a'' ''A'', spoken 100 ''b'' ''B'', spoken 200 ''c'' ''B'']"]
    normalizer_nonempty_and_ordered [of text_response]
  by simp

text \<open>
  The claim as first stated asks only for a non-empty transcript text. An empty
  \<^verbatim>\<open>utterances\<close> array passes the guard of line 166 and maps to no segment, whatever the
  text; and utterances that are not in time order are mapped in the order given.
\<close>

theorem normalizer_empty_or_unordered_counterexample:
  "or_str (tr_text (utterances_response [])) [] = ''hi hello'' \<and>
   parseAssemblyAISegmentsWithSpeakers (utterances_response []) = [] \<and>
   map seg_start (parseAssemblyAISegmentsWithSpeakers (utterances_response (rev two_utterances)))
     = [2, 0] \<and>
   \<not> sorted [2, 0 :: real]"
  by (simp add: parseAssemblyAISegmentsWithSpeakers_def utterance_segment_def or_str_def)

section \<open>Speaker names\<close>

lemma with_name_simps [simp]:
  "segment.truncate (with_name seg n) = seg"
  "speakerName (with_name seg n) = n"
  "seg_speaker (with_name seg n) = seg_speaker seg"
  by (simp_all add: with_name_def segment.defs)

lemma js_get_own: "map_of obj k = Some v \<Longrightarrow> js_get obj k = Some (Text v)"
  by (simp add: js_get_def)

lemma js_get_absent:
  "map_of obj k = None \<Longrightarrow> k \<notin> set object_prototype \<Longrightarrow> js_get obj k = None"
  by (simp add: js_get_def)

lemma js_get_inherited:
  "map_of obj k = None \<Longrightarrow> k \<in> set object_prototype \<Longrightarrow> js_get obj k = Some (Member k)"
  by (simp add: js_get_def)

lemma empty_not_member: "[] \<notin> set object_prototype"
  by (simp add: object_prototype_def)

text \<open>
  No tag that the normalizer writes names a member of \<^verbatim>\<open>Object.prototype\<close>: every one
  of them starts with \<open>Speaker\<close>.
\<close>

lemma plain_tag_label [simp]: "plain_tag (speaker_label x)"
  by (auto simp: plain_tag_def speaker_label_def object_prototype_def split: option.splits)

lemma plain_tag_None [simp]: "plain_tag None"
  by (simp add: plain_tag_def)

lemma loop_body_plain_tags: "plain_tags st \<Longrightarrow> plain_tags (loop_body ws i st)"
  by (simp add: plain_tags_def loop_body_def Let_def)

lemma words_loop_plain_tags: "plain_tags st \<Longrightarrow> plain_tags (words_loop ws i st)"
proof (induction ws i st rule: words_loop.induct)
  case (1 ws i st)
  show ?case
  proof (cases "i < length ws")
    case True
    then show ?thesis
      using 1 by (simp add: words_loop.simps [of ws i st] loop_body_plain_tags)
  next
    case False
    then show ?thesis
      using 1(2) by (simp add: words_loop.simps [of ws i st])
  qed
qed

lemma normalizer_plain_tags:
  assumes "seg \<in> set (parseAssemblyAISegmentsWithSpeakers t)"
      and "seg_speaker seg = Some tag"
  shows "tag \<notin> set object_prototype"
proof -
  have "plain_tags init_state"
    by (simp add: plain_tags_def init_state_def)
  then have w: "plain_tags (words_loop ws 0 init_state)" for ws
    by (rule words_loop_plain_tags)
  have "plain_tag (seg_speaker seg)"
    using assms(1) w
    by (auto simp: parseAssemblyAISegmentsWithSpeakers_def utterance_segment_def plain_tags_def
        split: option.splits)
  then show ?thesis
    using assms(2) by (simp add: plain_tag_def)
qed

text \<open>
  C5 (as amended). \<^verbatim>\<open>applySpeakerNamesToSegments\<close> is a function of the segments and the
  stored mapping: two databases with the same stored mapping give the same output. It
  returns a list of the same length, with every start, end and text unchanged; without a
  stored mapping it returns the segments as they are. With a stored mapping, for every
  segment whose tag is not empty and is not the name of a member of
  \<^verbatim>\<open>Object.prototype\<close>: if the tag has a non-empty mapped name, the output segment
  carries that name as its speaker; if the tag is absent from the mapping, or mapped to
  the empty string, the output segment keeps its original tag. A segment without a tag
  is returned without tag and name when the mapping has no non-empty name under the
  empty string. No segment is dropped and no segment that had a speaker is left without
  one.
\<close>

theorem applySpeakerNames_overlay:
  "length (applySpeakerNamesToSegments J rid segs s) = length segs \<and>
   (getSpeakerMapping J rid s = None \<longrightarrow>
      applySpeakerNamesToSegments J rid segs s = map same_segment segs) \<and>
   (\<forall>m i. getSpeakerMapping J rid s = Some m \<and> i < length segs \<longrightarrow>
      ov_start (applySpeakerNamesToSegments J rid segs s ! i) = seg_start (segs ! i) \<and>
      ov_end (applySpeakerNamesToSegments J rid segs s ! i) = seg_end (segs ! i) \<and>
      ov_text (applySpeakerNamesToSegments J rid segs s ! i) = seg_text (segs ! i) \<and>
      (\<forall>tag. seg_speaker (segs ! i) = Some tag \<and> tag \<noteq> [] \<and> tag \<notin> set object_prototype \<longrightarrow>
         ov_speaker (applySpeakerNamesToSegments J rid segs s ! i) =
           (case map_of m tag of
              None \<Rightarrow> Some (Text tag)
            | Some name \<Rightarrow> if name = [] then Some (Text tag) else Some (Text name))) \<and>
      (seg_speaker (segs ! i) = None \<and> (map_of m [] = None \<or> map_of m [] = Some []) \<longrightarrow>
         ov_speaker (applySpeakerNamesToSegments J rid segs s ! i) = None) \<and>
      (seg_speaker (segs ! i) \<noteq> None \<longrightarrow>
         ov_speaker (applySpeakerNamesToSegments J rid segs s ! i) \<noteq> None)) \<and>
   (\<forall>s'. getSpeakerMapping J rid s' = getSpeakerMapping J rid s \<longrightarrow>
      applySpeakerNamesToSegments J rid segs s' = applySpeakerNamesToSegments J rid segs s)"
proof -
  have tagged: "or_val (js_get m tag) (Some tag) =
      (case map_of m tag of
         None \<Rightarrow> Some (Text tag)
       | Some name \<Rightarrow> if name = [] then Some (Text tag) else Some (Text name))"
    if "tag \<notin> set object_prototype" for m tag
    using that by (simp add: or_val_def truthy_val_def js_get_def split: option.splits)
  have untagged: "or_val (js_get m []) None = None"
    if "map_of m [] = None \<or> map_of m [] = Some []" for m
    using that empty_not_member by (auto simp: or_val_def truthy_val_def js_get_def)
  have kept: "or_val a (Some tag) \<noteq> None" for a tag
    by (cases a) (simp_all add: or_val_def truthy_val_def)
  show ?thesis
    using tagged untagged kept
    by (auto simp: applySpeakerNamesToSegments_def same_segment_def or_str_def
        split: option.splits)
qed

text \<open>
  The scenario of the specification: mapping \<open>Speaker A\<close> to \<open>Jane Doe\<close>, segments of
  \<open>Speaker A\<close> and \<open>Speaker B\<close>.
\<close>

theorem applySpeakerNames_overlay_witness:
  "getSpeakerMapping example_json ''rec1'' (stored_state (Some jane_text)) = Some jane_mapping \<and>
   length (applySpeakerNamesToSegments example_json ''rec1'' two_segments
             (stored_state (Some jane_text))) = 2 \<and>
   ov_speaker (applySpeakerNamesToSegments example_json ''rec1'' two_segments
                 (stored_state (Some jane_text)) ! 0) = Some (Text ''Jane Doe'') \<and>
   ov_speaker (applySpeakerNamesToSegments example_json ''rec1'' two_segments
                 (stored_state (Some jane_text)) ! 1) = Some (Text ''Speaker B'')"
proof -
  have m: "getSpeakerMapping example_json ''rec1'' (stored_state (Some jane_text))
             = Some jane_mapping"
    by (simp add: getSpeakerMapping_def truthy_str_def or_str_def)
  have a: "''Speaker A'' \<notin> set object_prototype" and b: "''Speaker B'' \<notin> set object_prototype"
    by (simp_all add: object_prototype_def)
  note r = applySpeakerNames_overlay
    [of example_json "''rec1''" two_segments "stored_state (Some jane_text)"]
  have len: "length (applySpeakerNamesToSegments example_json ''rec1'' two_segments
             (stored_state (Some jane_text))) = 2"
    using r [THEN conjunct1] by simp
  note at = r [THEN conjunct2, THEN conjunct2, THEN conjunct1, rule_format, of jane_mapping,
      THEN conjunct2, THEN conjunct2, THEN conjunct2, THEN conjunct1, rule_format]
  have s0: "ov_speaker (applySpeakerNamesToSegments example_json ''rec1'' two_segments
                 (stored_state (Some jane_text)) ! 0) = Some (Text ''Jane Doe'')"
    using at [of 0 "''Speaker A''"] m a by simp
  have s1: "ov_speaker (applySpeakerNamesToSegments example_json ''rec1'' two_segments
                 (stored_state (Some jane_text)) ! 1) = Some (Text ''Speaker B'')"
    using at [of 1 "''Speaker B''"] m b by simp
  from m len s0 s1 show ?thesis
    by (simp only: simp_thms)
qed

text \<open>
  The claim as first stated gives every tag that has an entry its mapped name.
  \<^verbatim>\<open>speakerMapping[k] || segment.speaker\<close> falls back when the mapped name is the empty
  string, as the overlays of \<^verbatim>\<open>getTranscription\<close> and of the frontend do: with
  \<open>Speaker B\<close> mapped to the empty string the segment keeps \<open>Speaker B\<close>.
\<close>

theorem applySpeakerNames_empty_name_counterexample:
  "map_of blank_mapping ''Speaker B'' = Some '''' \<and>
   getSpeakerMapping example_json ''rec1'' (stored_state (Some blank_text)) = Some blank_mapping \<and>
   map ov_speaker (applySpeakerNamesToSegments example_json ''rec1'' two_segments
                     (stored_state (Some blank_text)))
     = [Some (Text ''Speaker A''), Some (Text ''Speaker B'')] \<and>
   Some (Text ''Speaker B'') \<noteq> Some (Text '''')"
  by (simp add: applySpeakerNamesToSegments_def getSpeakerMapping_def truthy_str_def
      or_str_def or_val_def truthy_val_def js_get_def same_segment_def object_prototype_def)

text \<open>
  Two inputs that the amended statement leaves open. A segment without a tag is looked
  up under the empty key (\<^verbatim>\<open>segment.speaker || ''\<close>), which the overlay of
  \<^verbatim>\<open>getTranscription\<close> guards against: with the empty key mapped to \<open>Narrator\<close> such a
  segment comes back with speaker \<open>Narrator\<close>. And a tag that names a member of
  \<^verbatim>\<open>Object.prototype\<close> and has no entry comes back as that member, not as a string.
\<close>

lemma applySpeakerNames_tagless_lookup:
  "map ov_speaker (applySpeakerNamesToSegments example_json ''rec1''
                     [\<lparr> seg_start = 0, seg_end = 1, seg_text = ''hm'', seg_speaker = None \<rparr>]
                     (stored_state (Some narrator_text)))
     = [Some (Text ''Narrator'')]"
  by (simp add: applySpeakerNamesToSegments_def getSpeakerMapping_def truthy_str_def
      or_str_def or_val_def truthy_val_def js_get_def same_segment_def)

lemma applySpeakerNames_inherited_member:
  "map ov_speaker (applySpeakerNamesToSegments example_json ''rec1''
                     [\<lparr> seg_start = 0, seg_end = 1, seg_text = ''hm'',
                        seg_speaker = Some ''constructor'' \<rparr>]
                     (stored_state (Some jane_text)))
     = [Some (Member ''constructor'')]"
  by (simp add: applySpeakerNamesToSegments_def getSpeakerMapping_def truthy_str_def
      or_str_def or_val_def truthy_val_def js_get_def same_segment_def object_prototype_def)

text \<open>
  C8. Storing a speaker mapping for a recording and then reading it back for the same
  recording yields the same mapping. The write is \<^verbatim>\<open>storeSpeakerMapping\<close> and has to
  succeed (a transcript exists for the recording); \<^verbatim>\<open>JSON.parse\<close> has to invert
  \<^verbatim>\<open>JSON.stringify\<close> on the mapping and the text must not be empty, as holds of the
  runtime's functions on every flat string-to-string object.
\<close>

theorem speaker_mapping_round_trip:
  assumes "storeSpeakerMapping J rid m s = (Inr u, s')"
      and "parse_mapping J (stringify_mapping J m) = Some m"
      and "stringify_mapping J m \<noteq> []"
  shows "getSpeakerMapping J rid s' = Some m"
  using assms
  by (auto simp: storeSpeakerMapping_def getSpeakerMapping_def truthy_str_def or_str_def
      split: option.splits)


theorem speaker_mapping_round_trip_witness:
  "fst (storeSpeakerMapping example_json ''rec1'' jane_mapping (stored_state None)) = Inr () \<and>
   map_option tx_speakerNames (transcripts
      (snd (storeSpeakerMapping example_json ''rec1'' jane_mapping (stored_state None))) ''rec1'')
     = Some (Some jane_text) \<and>
   getSpeakerMapping example_json ''rec1''
      (snd (storeSpeakerMapping example_json ''rec1'' jane_mapping (stored_state None)))
     = Some jane_mapping"
proof -
  have w: "storeSpeakerMapping example_json ''rec1'' jane_mapping (stored_state None)
             = (Inr (), snd (storeSpeakerMapping example_json ''rec1'' jane_mapping
                               (stored_state None)))"
    by (simp add: storeSpeakerMapping_def)
  have p: "parse_mapping example_json (stringify_mapping example_json jane_mapping)
             = Some jane_mapping"
    by simp
  have n: "stringify_mapping example_json jane_mapping \<noteq> []"
    by simp
  from speaker_mapping_round_trip [OF w p n] show ?thesis
    by (simp add: storeSpeakerMapping_def)
qed

text \<open>
  C9 (as amended). \<^verbatim>\<open>getTranscription\<close> returns the not-found value \<^verbatim>\<open>null\<close>, not an
  error, when the recording has no transcript. When a transcript with a stored speaker
  mapping exists (its content and mapping parse, its recording exists), it returns the
  parsed mapping and one segment per stored segment, each with its start, end, text and
  speaker tag unchanged and with an added \<^verbatim>\<open>speakerName\<close>: none for a segment without
  a tag, and, for a tag that is not the name of a member of \<^verbatim>\<open>Object.prototype\<close> (no
  tag written by the normalizer is one), the mapped name when the tag is non-empty and
  has a non-empty mapped name, the original tag otherwise.
\<close>

theorem getTranscription_overlay:
  "(transcripts s rid = None \<longrightarrow> getTranscription J rid s = Inr None) \<and>
   (\<forall>t r segs txt m.
      transcripts s rid = Some t \<and> recordings s rid = Some r \<and>
      parse_segments J (tx_content t) = Some segs \<and>
      tx_speakerNames t = Some txt \<and> txt \<noteq> [] \<and> parse_mapping J txt = Some m \<longrightarrow>
      (\<exists>v. getTranscription J rid s = Inr (Some v) \<and>
           v_speakerNames v = Some m \<and>
           length (v_segments v) = length segs \<and>
           (\<forall>i<length segs.
              segment.truncate (v_segments v ! i) = segs ! i \<and>
              (seg_speaker (segs ! i) = None \<longrightarrow> speakerName (v_segments v ! i) = None) \<and>
              (\<forall>tag. seg_speaker (segs ! i) = Some tag \<and> tag \<notin> set object_prototype \<longrightarrow>
                 speakerName (v_segments v ! i) =
                   (case map_of m tag of
                      None \<Rightarrow> Some (Text tag)
                    | Some name \<Rightarrow>
                        if tag = [] \<or> name = [] then Some (Text tag) else Some (Text name))))))"
  by (auto simp: getTranscription_def truthy_str_def or_str_def truthy_val_def js_get_def Let_def
      split: option.splits)

theorem getTranscription_overlay_witness:
  "getTranscription example_json ''rec2'' (stored_state (Some jane_text)) = Inr None \<and>
   (\<exists>v. getTranscription example_json ''rec1'' (stored_state (Some jane_text)) = Inr (Some v) \<and>
        length (v_segments v) = 2 \<and>
        segment.truncate (v_segments v ! 0) = two_segments ! 0 \<and>
        speakerName (v_segments v ! 0) = Some (Text ''Jane Doe'') \<and>
        speakerName (v_segments v ! 1) = Some (Text ''Speaker B''))"
proof -
  note r = getTranscription_overlay [of "stored_state (Some jane_text)" _ example_json]
  have nf: "getTranscription example_json ''rec2'' (stored_state (Some jane_text)) = Inr None"
    using r [of "''rec2''", THEN conjunct1] by simp
  have a: "''Speaker A'' \<notin> set object_prototype" and b: "''Speaker B'' \<notin> set object_prototype"
    by (simp_all add: object_prototype_def)
  from r [of "''rec1''", THEN conjunct2, rule_format,
      of "the (transcripts (stored_state (Some jane_text)) ''rec1'')"
         "the (recordings (stored_state (Some jane_text)) ''rec1'')"
         two_segments jane_text jane_mapping]
  obtain v where v:
    "getTranscription example_json ''rec1'' (stored_state (Some jane_text)) = Inr (Some v)"
    "length (v_segments v) = length two_segments"
    "\<forall>i<length two_segments.
        segment.truncate (v_segments v ! i) = two_segments ! i \<and>
        (seg_speaker (two_segments ! i) = None \<longrightarrow> speakerName (v_segments v ! i) = None) \<and>
        (\<forall>tag. seg_speaker (two_segments ! i) = Some tag \<and> tag \<notin> set object_prototype \<longrightarrow>
           speakerName (v_segments v ! i) =
             (case map_of jane_mapping tag of
                None \<Rightarrow> Some (Text tag)
              | Some name \<Rightarrow>
                  if tag = [] \<or> name = [] then Some (Text tag) else Some (Text name)))"
    by auto
  note at = v(3) [rule_format]
  have t0: "segment.truncate (v_segments v ! 0) = two_segments ! 0"
    using at [of 0, THEN conjunct1] by simp
  have n0: "speakerName (v_segments v ! 0) = Some (Text ''Jane Doe'')"
    using at [of 0, THEN conjunct2, THEN conjunct2, rule_format, of "''Speaker A''"] a by simp
  have n1: "speakerName (v_segments v ! 1) = Some (Text ''Speaker B'')"
    using at [of 1, THEN conjunct2, THEN conjunct2, rule_format, of "''Speaker B''"] b by simp
  from nf v(1,2) t0 n0 n1 show ?thesis
    by auto
qed

text \<open>
  The claim as first stated has the segment's speaker tag replaced, as
  \<^verbatim>\<open>applySpeakerNamesToSegments\<close> does. \<^verbatim>\<open>getTranscription\<close> keeps the tag in
  \<^verbatim>\<open>speaker\<close> and puts the name in the new field: for the same stored mapping and
  segments the speakers that \<^verbatim>\<open>getTranscription\<close> returns are the stored tags, those of
  \<^verbatim>\<open>applySpeakerNamesToSegments\<close> the names.
\<close>

theorem getTranscription_keeps_tag_counterexample:
  "(case getTranscription example_json ''rec1'' (stored_state (Some jane_text)) of
      Inr (Some v) \<Rightarrow> map seg_speaker (v_segments v) | _ \<Rightarrow> [])
     = [Some ''Speaker A'', Some ''Speaker B''] \<and>
   map ov_speaker (applySpeakerNamesToSegments example_json ''rec1'' two_segments
                     (stored_state (Some jane_text)))
     = [Some (Text ''Jane Doe''), Some (Text ''Speaker B'')]"
  by (simp add: getTranscription_def applySpeakerNamesToSegments_def getSpeakerMapping_def
      truthy_str_def or_str_def or_val_def truthy_val_def js_get_def same_segment_def
      object_prototype_def Let_def)

text \<open>
  A stored tag that names a member of \<^verbatim>\<open>Object.prototype\<close>, which no run of
  \<^verbatim>\<open>transcribeAudio\<close> stores, gets that member as its \<^verbatim>\<open>speakerName\<close>.
\<close>

lemma getTranscription_inherited_member:
  "(if truthy_str (Some ''toString'') \<and> truthy_val (js_get jane_mapping ''toString'')
    then js_get jane_mapping ''toString'' else Some (Text ''toString''))
     = Some (Member ''toString'')"
  by (simp add: truthy_str_def truthy_val_def js_get_def object_prototype_def)

section \<open>Orchestration\<close>

subsection \<open>Status updates and the failure path\<close>

lemma updateRecordingStatus_Some:
  "recordings s rid = Some r \<Longrightarrow>
   updateRecordingStatus rid st s =
     (Inr (), s\<lparr> recordings := (recordings s)(rid \<mapsto> r\<lparr> rec_status := st \<rparr>) \<rparr>)"
  by (simp add: updateRecordingStatus_def)

lemma updateRecordingStatus_None:
  "recordings s rid = None \<Longrightarrow> updateRecordingStatus rid st s = (Inl (Error ''P2025''), s)"
  by (simp add: updateRecordingStatus_def)

lemma updateRecordingStatus_Inr:
  "updateRecordingStatus rid st s = (Inr u, s') \<Longrightarrow>
   \<exists>r. recordings s rid = Some r \<and> s' = s\<lparr> recordings := (recordings s)(rid \<mapsto> r\<lparr> rec_status := st \<rparr>) \<rparr>"
  by (auto simp: updateRecordingStatus_def split: option.splits)

lemma updateRecordingStatus_Inl:
  "updateRecordingStatus rid st s = (Inl e, s') \<Longrightarrow> s' = s \<and> recordings s rid = None"
  by (auto simp: updateRecordingStatus_def split: option.splits)

lemma failed_run_not_Inr: "fst (failed_run rid e s) \<noteq> Inr x"
  by (simp add: failed_run_def updateRecordingStatus_def split: option.splits)

lemma failed_run_Some:
  "recordings s rid = Some r \<Longrightarrow>
   failed_run rid e s = (Inl e, s\<lparr> recordings := (recordings s)(rid \<mapsto> r\<lparr> rec_status := ''FAILED'' \<rparr>) \<rparr>)"
  by (simp add: failed_run_def updateRecordingStatus_def)

lemma failed_run_frame:
  "transcripts (snd (failed_run rid e s)) = transcripts s \<and>
   identifyCalls (snd (failed_run rid e s)) = identifyCalls s"
  by (simp add: failed_run_def updateRecordingStatus_def split: option.splits)

lemma transcribeDirectly_error:
  "transcribe W path = Inr t \<Longrightarrow> tr_status t = ''error'' \<Longrightarrow>
   transcribeDirectly W path =
     Inl (Error (''Transcription failed: AssemblyAI transcription failed: ''
                 @ template_text (tr_error t)))"
  by (simp add: transcribeDirectly_def wrap_failure_def)

subsection \<open>What the writes change\<close>

text \<open>
  \<^verbatim>\<open>storeSpeakerMapping\<close>, and so \<^verbatim>\<open>identifySpeakers\<close>, leaves the recordings and the
  stored speaker count alone; a run that returns a result went through every step.
\<close>

lemma storeTranscription_Inl:
  "storeTranscription J rid res s = (Inl e, s2) \<Longrightarrow> s2 = s"
  by (auto simp: storeTranscription_def Let_def split: option.splits if_splits)

lemma storeTranscription_Inr:
  assumes "storeTranscription J rid res s = (Inr u, s2)"
  shows "transcripts s rid = None \<and> identifyCalls s2 = identifyCalls s \<and>
         (\<exists>r r'. recordings s rid = Some r \<and> recordings s2 rid = Some r' \<and> rec_status r' = rec_status r) \<and>
         (\<exists>t. transcripts s2 rid = Some t \<and>
              tx_speakerCount t = (case res_speakerCount res of None \<Rightarrow> 1 | Some n \<Rightarrow> if n = 0 then 1 else n))"
  using assms
  by (auto simp: storeTranscription_def Let_def split: option.splits if_splits)

lemma storeSpeakerMapping_frame:
  "recordings (snd (storeSpeakerMapping J rid m s)) = recordings s \<and>
   identifyCalls (snd (storeSpeakerMapping J rid m s)) = identifyCalls s \<and>
   map_option tx_speakerCount (transcripts (snd (storeSpeakerMapping J rid m s)) rid)
     = map_option tx_speakerCount (transcripts s rid)"
  by (simp add: storeSpeakerMapping_def split: option.splits)

lemma identifySpeakers_snd:
  "snd (identifySpeakers W J rid segs raw s) = s\<lparr> identifyCalls := Suc (identifyCalls s) \<rparr> \<or>
   (\<exists>m. snd (identifySpeakers W J rid segs raw s)
          = snd (storeSpeakerMapping J rid m (s\<lparr> identifyCalls := Suc (identifyCalls s) \<rparr>)))"
  by (auto simp: identifySpeakers_def Let_def split: sum.splits option.splits prod.splits)
     (metis snd_conv)+

lemma identifySpeakers_frame:
  "recordings (snd (identifySpeakers W J rid segs raw s)) = recordings s \<and>
   identifyCalls (snd (identifySpeakers W J rid segs raw s)) = Suc (identifyCalls s) \<and>
   map_option tx_speakerCount (transcripts (snd (identifySpeakers W J rid segs raw s)) rid)
     = map_option tx_speakerCount (transcripts s rid)"
  using identifySpeakers_snd [of W J rid segs raw s]
    storeSpeakerMapping_frame [of J rid _ "s\<lparr> identifyCalls := Suc (identifyCalls s) \<rparr>"]
  by auto

lemma transcribeDirectly_Inr:
  "transcribeDirectly W path = Inr res \<Longrightarrow>
   \<exists>t. transcribe W path = Inr t \<and> tr_status t \<noteq> ''error'' \<and>
       res_segments res = parseAssemblyAISegmentsWithSpeakers t \<and>
       res_speakerCount res = Some (speakerSetSize (parseAssemblyAISegmentsWithSpeakers t))"
  by (auto simp: transcribeDirectly_def Let_def split: sum.splits if_splits)

lemma failed_run_neq [simp]: "failed_run rid e s \<noteq> (Inr res, s')"
  using failed_run_not_Inr [of rid e s res] by auto

lemma transcribeAudio_Inr:
  assumes "transcribeAudio W J rid path s = (Inr res, s')"
  shows "\<exists>s1 s2 n.
           updateRecordingStatus rid ''TRANSCRIBING'' s = (Inr (), s1) \<and>
           statSync W path = Some n \<and>
           transcribeDirectly W path = Inr res \<and>
           storeTranscription J rid res s1 = (Inr (), s2) \<and>
           updateRecordingStatus rid ''COMPLETED''
             (if wants_resolver W res
              then snd (identifySpeakers W J rid (res_segments res) (res_text res) s2) else s2)
             = (Inr (), s')"
  using assms
  by (auto simp: transcribeAudio_def wants_resolver_def Let_def
      split: prod.splits sum.splits option.splits)
lemma updateRecordingStatus_transcripts:
  "updateRecordingStatus rid st s = (r, s') \<Longrightarrow>
   transcripts s' = transcripts s \<and> identifyCalls s' = identifyCalls s"
  by (auto simp: updateRecordingStatus_def split: option.splits)

lemma failed_run_transcripts:
  "failed_run rid e s = (r, s') \<Longrightarrow> transcripts s' = transcripts s"
  using failed_run_frame [of rid e s] by simp

lemma transcribeAudio_success:
  assumes "updateRecordingStatus rid ''TRANSCRIBING'' s = (Inr (), s1)"
      and "statSync W path = Some n"
      and "transcribeDirectly W path = Inr res"
      and "storeTranscription J rid res s1 = (Inr (), s2)"
  shows "\<exists>s'. transcribeAudio W J rid path s = (Inr res, s') \<and>
              map_option rec_status (recordings s' rid) = Some ''COMPLETED''"
proof -
  let ?s3 = "if speakerIdentificationService W
                \<and> (case res_speakerCount res of None \<Rightarrow> False | Some n \<Rightarrow> n \<noteq> 0 \<and> n > 1)
             then snd (identifySpeakers W J rid (res_segments res) (res_text res) s2) else s2"
  from storeTranscription_Inr [OF assms(4)]
  obtain r' where "recordings s2 rid = Some r'"
    by auto
  then have "recordings ?s3 rid = Some r'"
    by (simp add: identifySpeakers_frame)
  from updateRecordingStatus_Some [OF this, of "''COMPLETED''"] assms
  show ?thesis
    by (simp add: transcribeAudio_def Let_def)
qed

lemma transcribeDirectly_chat [simp]:
  "transcribeDirectly (W\<lparr> chat := c \<rparr>) path = transcribeDirectly W path"
proof -
  have "getAudioDuration (W\<lparr> chat := c \<rparr>) path = getAudioDuration W path"
    by (simp add: getAudioDuration_def)
  then show ?thesis
    by (simp add: transcribeDirectly_def Let_def split: sum.splits)
qed

text \<open>
  C6. When \<^verbatim>\<open>transcribeAudio\<close> runs on an existing recording and the provider reports
  status \<open>error\<close>, the run throws an error whose message ends with the provider's
  message, the recording's status is FAILED when the run ends, and the transcripts are
  what they were: no row is created. The resolver is not called.
\<close>

theorem provider_error_marks_failed:
  assumes "recordings s rid = Some r"
      and "statSync W path = Some n"
      and "transcribe W path = Inr t"
      and "tr_status t = ''error''"
  shows "fst (transcribeAudio W J rid path s) =
           Inl (Error (''Transcription failed: AssemblyAI transcription failed: ''
                       @ template_text (tr_error t))) \<and>
         map_option rec_status (recordings (snd (transcribeAudio W J rid path s)) rid) = Some ''FAILED'' \<and>
         transcripts (snd (transcribeAudio W J rid path s)) = transcripts s \<and>
         identifyCalls (snd (transcribeAudio W J rid path s)) = identifyCalls s"
  using assms
  by (simp add: transcribeAudio_def updateRecordingStatus_Some transcribeDirectly_error
      failed_run_Some)

theorem provider_error_marks_failed_witness:
  "fst (transcribeAudio (example_world error_response) example_json ''rec1'' ''f1.mp3''
          fresh_state)
     = Inl (Error ''Transcription failed: AssemblyAI transcription failed: Audio file is corrupt'') \<and>
   map_option rec_status
     (recordings (snd (transcribeAudio (example_world error_response) example_json ''rec1''
        ''f1.mp3'' fresh_state)) ''rec1'') = Some ''FAILED'' \<and>
   transcripts (snd (transcribeAudio (example_world error_response) example_json ''rec1''
        ''f1.mp3'' fresh_state)) = Map.empty"
  using provider_error_marks_failed
    [of fresh_state "''rec1''" example_recording "example_world error_response" "''f1.mp3''"
        1024 error_response example_json]
  by (simp add: template_text_def)

text \<open>
  C7. In a run of \<^verbatim>\<open>transcribeAudio\<close> that returns a result, the resolver is called once
  if a resolver is available and the computed speaker count is greater than 1, and not
  at all otherwise; the recording's status ends as COMPLETED; and whatever the chat
  endpoint does (throw, answer nothing, answer text that does not parse), the run
  returns the same result and ends as COMPLETED.
\<close>

theorem resolver_invoked_iff_many_speakers:
  assumes "transcribeAudio W J rid path s = (Inr res, s')"
  shows "identifyCalls s' = identifyCalls s +
           (if speakerIdentificationService W
               \<and> (case res_speakerCount res of None \<Rightarrow> False | Some n \<Rightarrow> n > 1)
            then 1 else 0) \<and>
         map_option rec_status (recordings s' rid) = Some ''COMPLETED'' \<and>
         (\<forall>c. fst (transcribeAudio (W\<lparr> chat := c \<rparr>) J rid path s) = Inr res \<and>
              map_option rec_status
                (recordings (snd (transcribeAudio (W\<lparr> chat := c \<rparr>) J rid path s)) rid)
                = Some ''COMPLETED'')"
proof -
  from transcribeAudio_Inr [OF assms]
  obtain s1 s2 n where
    a: "updateRecordingStatus rid ''TRANSCRIBING'' s = (Inr (), s1)" and
    b: "statSync W path = Some n" and
    c: "transcribeDirectly W path = Inr res" and
    d: "storeTranscription J rid res s1 = (Inr (), s2)" and
    e: "updateRecordingStatus rid ''COMPLETED''
          (if wants_resolver W res
           then snd (identifySpeakers W J rid (res_segments res) (res_text res) s2) else s2)
        = (Inr (), s')"
    by blast
  have calls: "identifyCalls s' = identifyCalls s + (if wants_resolver W res then 1 else 0)"
    using updateRecordingStatus_transcripts [OF a] updateRecordingStatus_transcripts [OF e]
      storeTranscription_Inr [OF d]
    by (simp add: identifySpeakers_frame)
  have status: "map_option rec_status (recordings s' rid) = Some ''COMPLETED''"
    using transcribeAudio_success [OF a b c d] assms by simp
  have indep: "fst (transcribeAudio (W\<lparr> chat := c' \<rparr>) J rid path s) = Inr res \<and>
              map_option rec_status
                (recordings (snd (transcribeAudio (W\<lparr> chat := c' \<rparr>) J rid path s)) rid)
                = Some ''COMPLETED''" for c'
    using transcribeAudio_success [of rid s s1 "W\<lparr> chat := c' \<rparr>" path n res J s2] a b c d
    by auto
  from calls status indep show ?thesis
    by (simp add: wants_resolver_def)
qed


text \<open>Two speakers, a resolver, and a chat endpoint that throws.\<close>

theorem resolver_invoked_iff_many_speakers_witness:
  "fst (transcribeAudio (example_world (utterances_response two_utterances)) example_json
          ''rec1'' ''f1.mp3'' fresh_state)
     = Inr \<lparr> res_text = ''hi hello'', res_segments = two_segments,
             res_language = ''en'', res_duration = 4, res_speakerCount = Some 2 \<rparr> \<and>
   identifyCalls (snd (transcribeAudio (example_world (utterances_response two_utterances))
        example_json ''rec1'' ''f1.mp3'' fresh_state)) = 1 \<and>
   map_option rec_status
     (recordings (snd (transcribeAudio (example_world (utterances_response two_utterances))
        example_json ''rec1'' ''f1.mp3'' fresh_state)) ''rec1'') = Some ''COMPLETED''"
proof -
  let ?run = "transcribeAudio (example_world (utterances_response two_utterances)) example_json
                ''rec1'' ''f1.mp3'' fresh_state"
  let ?res = "\<lparr> res_text = ''hi hello'', res_segments = two_segments,
                res_language = ''en'', res_duration = 4, res_speakerCount = Some 2 \<rparr>"
  have f: "fst ?run = Inr ?res"
    by (simp add: transcribeAudio_def updateRecordingStatus_def transcribeDirectly_def
        parseAssemblyAISegmentsWithSpeakers_def utterance_segment_def speaker_label_cases
        speakerSetSize_def truthy_str_def storeTranscription_def or_str_def or_real_def
        getAudioDuration_def identifySpeakers_def storeSpeakerMapping_def Let_def)
  have r: "?run = (Inr ?res, snd ?run)"
    by (rule prod_eqI) (simp_all only: f fst_conv snd_conv)
  note t = resolver_invoked_iff_many_speakers [OF r]
  have "identifyCalls (snd ?run) = 1"
    using t [THEN conjunct1] by simp
  with f t [THEN conjunct2, THEN conjunct1] show ?thesis
    by (simp only: simp_thms)
qed

lemma transcribeAudio_transcripts:
  "transcripts (snd (transcribeAudio W J rid path s)) = transcripts s \<or>
   (\<exists>res s1 s2. transcribeDirectly W path = Inr res \<and>
       storeTranscription J rid res s1 = (Inr (), s2) \<and> transcripts s1 = transcripts s \<and>
       map_option tx_speakerCount (transcripts (snd (transcribeAudio W J rid path s)) rid)
         = map_option tx_speakerCount (transcripts s2 rid))"
proof -
  obtain r1 s1 where a: "updateRecordingStatus rid ''TRANSCRIBING'' s = (r1, s1)"
    by force
  note a' = updateRecordingStatus_transcripts [OF a]
  show ?thesis
  proof (cases "\<exists>n res s2. r1 = Inr () \<and> statSync W path = Some n \<and>
      transcribeDirectly W path = Inr res \<and> storeTranscription J rid res s1 = (Inr (), s2)")
    case False
    then have "transcripts (snd (transcribeAudio W J rid path s)) = transcripts s"
      using a a'
      by (auto simp: transcribeAudio_def failed_run_frame
          split: sum.splits option.splits prod.splits dest: storeTranscription_Inl)
    then show ?thesis ..
  next
    case True
    then obtain n res s2 where b: "r1 = Inr ()" "statSync W path = Some n"
      "transcribeDirectly W path = Inr res" "storeTranscription J rid res s1 = (Inr (), s2)"
      by blast
    let ?s3 = "if speakerIdentificationService W
                \<and> (case res_speakerCount res of None \<Rightarrow> False | Some n \<Rightarrow> n \<noteq> 0 \<and> n > 1)
             then snd (identifySpeakers W J rid (res_segments res) (res_text res) s2) else s2"
    obtain r4 s4 where c: "updateRecordingStatus rid ''COMPLETED'' ?s3 = (r4, s4)"
      by force
    have "transcripts (snd (transcribeAudio W J rid path s)) = transcripts ?s3"
      using a b c updateRecordingStatus_transcripts [OF c]
      by (cases r4) (simp_all add: transcribeAudio_def Let_def failed_run_frame)
    moreover have "map_option tx_speakerCount (transcripts ?s3 rid)
        = map_option tx_speakerCount (transcripts s2 rid)"
      by (simp add: identifySpeakers_frame)
    ultimately show ?thesis
      using b a' by auto
  qed
qed

text \<open>
  C10. Every transcript row that a run of \<^verbatim>\<open>transcribeAudio\<close> creates has a speaker
  count of at least 1: it is the number of distinct non-empty speaker tags of the
  normalized segments, and 1 when that number is 0.
\<close>

theorem stored_speakerCount_at_least_one:
  assumes "transcripts s rid = None"
      and "transcripts (snd (transcribeAudio W J rid path s)) rid = Some t"
  shows "tx_speakerCount t \<ge> 1 \<and>
         (\<exists>tr. transcribe W path = Inr tr \<and>
               tx_speakerCount t =
                 (if speakerSetSize (parseAssemblyAISegmentsWithSpeakers tr) = 0 then 1
                  else speakerSetSize (parseAssemblyAISegmentsWithSpeakers tr)))"
proof -
  from assms have "transcripts (snd (transcribeAudio W J rid path s)) \<noteq> transcripts s"
    by auto
  with transcribeAudio_transcripts [of W J rid path s]
  obtain res s1 s2 where
    a: "transcribeDirectly W path = Inr res" and
    b: "storeTranscription J rid res s1 = (Inr (), s2)" and
    c0: "map_option tx_speakerCount (transcripts (snd (transcribeAudio W J rid path s)) rid)
         = map_option tx_speakerCount (transcripts s2 rid)"
    by blast
  from c0 assms(2)
  have c: "map_option tx_speakerCount (transcripts s2 rid) = Some (tx_speakerCount t)"
    by simp
  from transcribeDirectly_Inr [OF a] obtain tr where
    d: "transcribe W path = Inr tr"
       "res_speakerCount res = Some (speakerSetSize (parseAssemblyAISegmentsWithSpeakers tr))"
    by blast
  from storeTranscription_Inr [OF b] c d(2)
  have e: "tx_speakerCount t =
             (if speakerSetSize (parseAssemblyAISegmentsWithSpeakers tr) = 0 then 1
              else speakerSetSize (parseAssemblyAISegmentsWithSpeakers tr))"
    by auto
  have "0 \<le> speakerSetSize (parseAssemblyAISegmentsWithSpeakers tr)"
    by (simp add: speakerSetSize_def)
  with e have "tx_speakerCount t \<ge> 1"
    by (simp split: if_splits)
  with d(1) e show ?thesis
    by blast
qed

text \<open>A response with neither array: one segment without a speaker, count 0, stored 1.\<close>

theorem stored_speakerCount_at_least_one_witness:
  "speakerSetSize (parseAssemblyAISegmentsWithSpeakers
      ((utterances_response [])\<lparr> tr_utterances := None \<rparr>)) = 0 \<and>
   map_option tx_speakerCount
     (transcripts (snd (transcribeAudio
        (example_world ((utterances_response [])\<lparr> tr_utterances := None \<rparr>)) example_json
        ''rec1'' ''f1.mp3'' fresh_state)) ''rec1'') = Some 1"
proof -
  let ?t = "(utterances_response [])\<lparr> tr_utterances := None \<rparr>"
  let ?run = "transcribeAudio (example_world ?t) example_json ''rec1'' ''f1.mp3'' fresh_state"
  have z: "speakerSetSize (parseAssemblyAISegmentsWithSpeakers ?t) = 0"
    by (simp add: parseAssemblyAISegmentsWithSpeakers_def speakerSetSize_def truthy_str_def)
  obtain t where t: "transcripts (snd ?run) ''rec1'' = Some t"
    by (simp add: transcribeAudio_def updateRecordingStatus_def transcribeDirectly_def
        parseAssemblyAISegmentsWithSpeakers_def utterance_segment_def speaker_label_cases
        speakerSetSize_def truthy_str_def storeTranscription_def or_str_def or_real_def
        getAudioDuration_def identifySpeakers_def storeSpeakerMapping_def Let_def)
  have "transcripts fresh_state ''rec1'' = None"
    by simp
  from stored_speakerCount_at_least_one [OF this t] z
  have "tx_speakerCount t = 1"
    by auto
  with t z show ?thesis
    by simp
qed

end
